theory Spec2Isabelle
  imports Complex_Main "HOL-Library.Sublist" "HOL-Library.Char_ord" "HOL-Library.List_Lexorder"
begin

section \<open>String operations of the Python source\<close>

text \<open>
  Strings are \<^typ>\<open>string\<close>. \<open>s.split(c)\<close> on a one-character separator always returns at
  least one label (\<open>''.split('.') == ['']\<close>); \<open>sep.join(xs)\<close> puts the separator between
  neighbours only.
\<close>

fun split_on :: "char \<Rightarrow> string \<Rightarrow> string list" where
  "split_on c [] = [[]]"
| "split_on c (x # xs) =
     (if x = c then [] # split_on c xs
      else (case split_on c xs of
              w # ws \<Rightarrow> (x # w) # ws
            | [] \<Rightarrow> [[x]]))"

fun join :: "string \<Rightarrow> string list \<Rightarrow> string" where
  "join sep [] = []"
| "join sep [x] = x"
| "join sep (x # y # ys) = x @ sep @ join sep (y # ys)"

section \<open>The suffix matcher: \<open>_PublicSuffixListTLDExtractor\<close>\<close>

record PublicSuffixListTLDExtractor =
  tlds :: "string set"

text \<open>
  \<open>for i in range(len(spl))\<close>: Python 2's \<open>range\<close> is the list \<open>[0, ..., len(spl) - 1]\<close>, and
  the loop body returns at the first index that hits. The function below runs the body
  over a list of indices; falling off the end is the final \<open>return netloc, ''\<close>.
  Slices \<open>spl[i:]\<close>, \<open>spl[:i]\<close> are \<^const>\<open>drop\<close> and \<^const>\<open>take\<close> (both clamp, as slices do).
\<close>

fun extract_loop :: "string set \<Rightarrow> string list \<Rightarrow> string \<Rightarrow> nat list \<Rightarrow> string \<times> string" where
  "extract_loop ts spl netloc [] = (netloc, '''')"
| "extract_loop ts spl netloc (i # rest) =
     (let maybe_tld = join ''.'' (drop i spl);
          exception_tld = CHR ''!'' # maybe_tld
      in if exception_tld \<in> ts
         then (join ''.'' (take (i + 1) spl), join ''.'' (drop (i + 1) spl))
         else (let wildcard_tld = ''*.'' @ join ''.'' (drop (i + 1) spl)
               in if wildcard_tld \<in> ts \<or> maybe_tld \<in> ts
                  then (join ''.'' (take i spl), maybe_tld)
                  else extract_loop ts spl netloc rest))"

definition PSL_extract :: "PublicSuffixListTLDExtractor \<Rightarrow> string \<Rightarrow> string \<times> string" where
  "PSL_extract self netloc =
     (let spl = split_on CHR ''.'' netloc
      in extract_loop (tlds self) spl netloc [0..<length spl])"

text \<open>The three membership tests of the loop body at index \<open>i\<close>, named for the statements.\<close>

definition exception_hit :: "string set \<Rightarrow> string list \<Rightarrow> nat \<Rightarrow> bool" where
  "exception_hit ts spl i = (CHR ''!'' # join ''.'' (drop i spl) \<in> ts)"

definition plain_hit :: "string set \<Rightarrow> string list \<Rightarrow> nat \<Rightarrow> bool" where
  "plain_hit ts spl i =
     (''*.'' @ join ''.'' (drop (i + 1) spl) \<in> ts \<or> join ''.'' (drop i spl) \<in> ts)"

text \<open>
  \<open>s.partition(c)\<close> cuts at the first occurrence of \<open>c\<close>, \<open>s.rpartition(c)\<close> at the last;
  without an occurrence they return \<open>(s, '', '')\<close> and \<open>('', '', s)\<close>.
\<close>

definition partition_str :: "char \<Rightarrow> string \<Rightarrow> string \<times> string \<times> string" where
  "partition_str c s =
     (if c \<in> set s
      then (takeWhile (\<lambda>x. x \<noteq> c) s, [c], tl (dropWhile (\<lambda>x. x \<noteq> c) s))
      else (s, '''', ''''))"

definition rpartition :: "char \<Rightarrow> string \<Rightarrow> string \<times> string \<times> string" where
  "rpartition c s =
     (if c \<in> set s
      then (rev (tl (dropWhile (\<lambda>x. x \<noteq> c) (rev s))), [c], rev (takeWhile (\<lambda>x. x \<noteq> c) (rev s)))
      else ('''', '''', s))"

definition isdigit :: "char \<Rightarrow> bool" where
  "isdigit c = (c \<in> set ''0123456789'')"

section \<open>Exceptions\<close>

text \<open>
  Every \<open>raise\<close> of the source and every exception of a library call that the source
  catches or lets through is a value. \<open>socket_error\<close> is \<open>socket.error\<close>.
\<close>

datatype py_exc =
  IOError | EOFError | UnpicklingError | ValueError | URLError
  | AttributeError | socket_error | TypeError | NameError | UnicodeDecodeError

section \<open>Regular expressions\<close>

text \<open>
  The patterns of the source are regular expressions without repetition operators other
  than the bounded \<open>{n}\<close>; they are embedded as syntax trees and run by derivatives.
  \<open>OneOf cs\<close> is a character class (or a literal, for a one-character class).
\<close>

datatype regex = Empty | Eps | OneOf string | Seq regex regex | Alt regex regex

fun nullable :: "regex \<Rightarrow> bool" where
  "nullable Empty = False"
| "nullable Eps = True"
| "nullable (OneOf cs) = False"
| "nullable (Seq r s) = (nullable r \<and> nullable s)"
| "nullable (Alt r s) = (nullable r \<or> nullable s)"

fun deriv :: "char \<Rightarrow> regex \<Rightarrow> regex" where
  "deriv c Empty = Empty"
| "deriv c Eps = Empty"
| "deriv c (OneOf cs) = (if c \<in> set cs then Eps else Empty)"
| "deriv c (Seq r s) =
     (if nullable r then Alt (Seq (deriv c r) s) (deriv c s) else Seq (deriv c r) s)"
| "deriv c (Alt r s) = Alt (deriv c r) (deriv c s)"

fun matches :: "regex \<Rightarrow> string \<Rightarrow> bool" where
  "matches r [] = nullable r"
| "matches r (c # cs) = matches (deriv c r) cs"

text \<open>The language of a regular expression, to state what the matcher decides.\<close>

fun lang :: "regex \<Rightarrow> string set" where
  "lang Empty = {}"
| "lang Eps = {[]}"
| "lang (OneOf cs) = (\<lambda>c. [c]) ` set cs"
| "lang (Seq r s) = {u @ v | u v. u \<in> lang r \<and> v \<in> lang s}"
| "lang (Alt r s) = lang r \<union> lang s"

text \<open>
  \<open>re.compile('^...$').match(s)\<close>: the pattern is anchored at both ends, and Python's \<open>$\<close>
  matches at the end of the string and also just before a newline that ends the string.
\<close>

definition re_match_anchored :: "regex \<Rightarrow> string \<Rightarrow> bool" where
  "re_match_anchored r s =
     (matches r s \<or> (s \<noteq> [] \<and> last s = CHR 0x0A \<and> matches r (butlast s)))"

text \<open>
  \<open>IP_RE = ^(([0-9]|[1-9][0-9]|1[0-9]{2}|2[0-4][0-9]|25[0-5])\.){3}
            ([0-9]|[1-9][0-9]|1[0-9]{2}|2[0-4][0-9]|25[0-5])$\<close>
\<close>

text \<open>The character classes \<open>[0-9]\<close>, \<open>[1-9]\<close>, \<open>[0-4]\<close> and \<open>[0-5]\<close> of the pattern.\<close>

definition class_0_9 :: string where "class_0_9 = ''0123456789''"
definition class_1_9 :: string where "class_1_9 = ''123456789''"
definition class_0_4 :: string where "class_0_4 = ''01234''"
definition class_0_5 :: string where "class_0_5 = ''012345''"

definition IP_octet :: regex where
  "IP_octet =
     Alt (OneOf class_0_9)
    (Alt (Seq (OneOf class_1_9) (OneOf class_0_9))
    (Alt (Seq (OneOf ''1'') (Seq (OneOf class_0_9) (OneOf class_0_9)))
    (Alt (Seq (OneOf ''2'') (Seq (OneOf class_0_4) (OneOf class_0_9)))
         (Seq (OneOf ''2'') (Seq (OneOf ''5'') (OneOf class_0_5))))))"

definition IP_RE :: regex where
  "IP_RE =
     Seq (Seq IP_octet (OneOf ''.''))
    (Seq (Seq IP_octet (OneOf ''.''))
    (Seq (Seq IP_octet (OneOf ''.''))
         IP_octet))"

text \<open>
  \<open>SCHEME_RE = ^([<scheme_chars>]+:)?//\<close> with \<open>urlparse.scheme_chars\<close>, the letters, the
  digits and \<open>+-.\<close>. Inside the brackets the last three characters \<open>+-.\<close> form a range
  from \<open>+\<close> to \<open>.\<close>, which holds the comma too. \<open>SCHEME_RE.sub('', url)\<close> deletes the match
  at the start of the string, if there is one: no scheme character is \<open>:\<close> or \<open>/\<close>, so the
  group matches exactly a maximal non-empty run of scheme characters followed by \<open>:\<close>.
\<close>

definition scheme_chars :: string where
  "scheme_chars = ''abcdefghijklmnopqrstuvwxyzABCDEFGHIJKLMNOPQRSTUVWXYZ0123456789+-.''"

definition scheme_class :: "char \<Rightarrow> bool" where
  "scheme_class c = (c \<in> set scheme_chars \<or> c = CHR '','')"

definition SCHEME_RE_sub :: "string \<Rightarrow> string" where
  "SCHEME_RE_sub url =
     (if take 2 url = ''//'' then drop 2 url
      else (let rest = dropWhile scheme_class url
            in if rest \<noteq> url \<and> take 3 rest = ''://'' then drop 3 rest else url))"

section \<open>The result type\<close>

record ExtractResult =
  subdomain :: string
  domain :: string
  tld :: string

section \<open>The world outside the module\<close>

text \<open>
  The library functions the module calls but does not define are parameters:
  \<open>socket.inet_aton\<close> (its result, \<open>AttributeError\<close> where the platform's socket module has
  no such function, \<open>socket.error\<close> on an address it rejects, or another exception), the
  \<open>pickle\<close> codec on rule sets, and \<open>difflib.unified_diff\<close>: the lines it yields for the
  sorted rules of the snapshot, the sorted fetched rules and the name of the cache file.
\<close>

record library =
  inet_aton :: "string \<Rightarrow> py_exc + string"
  pickle_load :: "string \<Rightarrow> py_exc + string set"
  pickle_dump :: "string set \<Rightarrow> string"
  unified_diff :: "string set \<Rightarrow> string set \<Rightarrow> string \<Rightarrow> string list"

text \<open>
  A file has a modification time and bytes; \<open>content = None\<close> is a file that \<open>open\<close> or
  \<open>read\<close> refuses with \<open>IOError\<close>. Writing the rule set to a path,
  \<open>with open(cached_file, 'w') as f: pickle.dump(tlds, f)\<close>, has one of three outcomes:
  \<open>open\<close> raises \<open>IOError\<close> and the file is left as it was; \<open>open\<close> succeeds, which
  truncates the file, and then \<open>pickle.dump\<close> or closing the file raises \<open>IOError\<close> when
  \<open>n\<close> bytes of the dump have reached the file; or the whole dump is written.

  The world holds the files by path, the outcome of writing for each path, the outcome of
  \<open>urllib2.urlopen(url).read()\<close> decoded as UTF-8, the rule set pickled in the packaged
  \<open>.tld_set_snapshot\<close>, the path \<open>os.path.join(moddir, '.tld_set')\<close>, whether the logger
  is enabled for \<open>DEBUG\<close>, whether the module's global name \<open>sys\<close> is bound (the module
  imports \<open>sys\<close> only under \<open>if __name__ == "__main__"\<close>), the records handed to the
  logger and the lines printed to \<open>sys.stderr\<close>.
  Times are seconds as real numbers; \<open>time.time()\<close> is one value \<open>now\<close> for the whole of
  a call.
\<close>

record disk_file =
  mtime :: real
  content :: "string option"

datatype write_outcome = OpenFails | DumpFails nat | DumpCompletes

datatype level = ERROR | WARNING | INFO

record world =
  files :: "string \<Rightarrow> disk_file option"
  writing :: "string \<Rightarrow> write_outcome"
  page :: "py_exc + string"
  snapshot :: "string set"
  default_cache_file :: string
  debug_enabled :: bool
  sys_imported :: bool
  log_records :: "(level \<times> string) list"
  stderr_lines :: "string list"

definition LOG :: "level \<Rightarrow> string \<Rightarrow> world \<Rightarrow> world" where
  "LOG lv msg w = w\<lparr>log_records := log_records w @ [(lv, msg)]\<rparr>"

section \<open>The rule source: \<open>_fetch_page\<close> and \<open>_PublicSuffixListSource\<close>\<close>

definition fetch_page :: "world \<Rightarrow> (py_exc + string) \<times> world" where
  "fetch_page w =
     (case page w of
        Inr p \<Rightarrow> (Inr p, w)
      | Inl e \<Rightarrow> if e = URLError then (Inr '''', LOG ERROR ''URLError'' w) else (Inl e, w))"

text \<open>
  \<open>tld_finder = ^(?P<tld>[.*!]*\w[\S]*)\<close> with \<open>re.UNICODE | re.MULTILINE\<close>, run on the
  decoded page: a match starts at the start of a line and never holds a newline, so
  \<open>finditer\<close> yields at most one token per line, in order. A character of the page is a
  code point, here one up to U+00FF. Under \<open>re.UNICODE\<close> the class \<open>\w\<close> is the underscore
  and every code point that is alphabetic, decimal, digit or numeric in the Unicode
  tables (beyond ASCII: the letters of Latin-1, the ordinal indicators, the micro sign,
  the superscript digits and the fractions), and \<open>\S\<close> is every code point that is not
  whitespace in them (whitespace: U+0009 to U+000D, U+001C to U+0020, U+0085, U+00A0).
\<close>

definition word_char :: "char \<Rightarrow> bool" where
  "word_char c =
     (let n = (of_char c :: nat)
      in c = CHR ''_'' \<or> (0x30 \<le> n \<and> n \<le> 0x39) \<or> (0x41 \<le> n \<and> n \<le> 0x5A)
         \<or> (0x61 \<le> n \<and> n \<le> 0x7A)
         \<or> n \<in> {0xAA, 0xB2, 0xB3, 0xB5, 0xB9, 0xBA, 0xBC, 0xBD, 0xBE}
         \<or> (0xC0 \<le> n \<and> n \<le> 0xD6) \<or> (0xD8 \<le> n \<and> n \<le> 0xF6) \<or> (0xF8 \<le> n \<and> n \<le> 0xFF))"

definition space_char :: "char \<Rightarrow> bool" where
  "space_char c =
     (c \<in> set [CHR 0x09, CHR 0x0A, CHR 0x0B, CHR 0x0C, CHR 0x0D,
                CHR 0x1C, CHR 0x1D, CHR 0x1E, CHR 0x1F, CHR 0x20, CHR 0x85, CHR 0xA0])"

definition line_token :: "string \<Rightarrow> string option" where
  "line_token l =
     (let marks = takeWhile (\<lambda>c. c \<in> set ''.*!'') l;
          rest = dropWhile (\<lambda>c. c \<in> set ''.*!'') l
      in case rest of
           [] \<Rightarrow> None
         | c # cs \<Rightarrow>
             if word_char c then Some (marks @ c # takeWhile (\<lambda>x. \<not> space_char x) cs)
             else None)"

definition tld_finder :: "string \<Rightarrow> string list" where
  "tld_finder pg = List.map_filter line_token (split_on CHR 0x0A pg)"

definition PublicSuffixListSource :: "world \<Rightarrow> (py_exc + string list) \<times> world" where
  "PublicSuffixListSource w =
     (case fetch_page w of
        (Inl e, w1) \<Rightarrow> (Inl e, w1)
      | (Inr pg, w1) \<Rightarrow> (Inr (tld_finder pg), w1))"

section \<open>The extractor object: \<open>TLDExtract\<close>\<close>

record TLDExtract =
  fetch :: bool
  cache_file :: string
  cache_file_mtime :: real
  cache_ttl_sec :: int
  extractor :: "PublicSuffixListTLDExtractor option"

text \<open>\<open>__init__\<close>: the \<open>raise ValueError\<close> is the result \<open>Inl ValueError\<close>.\<close>

definition TLDExtract_init :: "bool \<Rightarrow> string \<Rightarrow> int \<Rightarrow> py_exc + TLDExtract" where
  "TLDExtract_init fetch_arg cache_file_arg cache_ttl_sec_arg =
     (let self = \<lparr>fetch = fetch_arg, cache_file = cache_file_arg, cache_file_mtime = 0,
                  cache_ttl_sec = max cache_ttl_sec_arg 0, extractor = None\<rparr>
      in if \<not> fetch self \<and> cache_ttl_sec self \<noteq> 0 then Inl ValueError else Inr self)"

text \<open>
  \<open>expired\<close>: a chain of \<open>and\<close> over the truth values of the operands; a number is true
  when it is not zero.
\<close>

definition expired :: "real \<Rightarrow> TLDExtract \<Rightarrow> bool" where
  "expired now self =
     (cache_ttl_sec self \<noteq> 0 \<and> cache_file_mtime self \<noteq> 0 \<and> fetch self
      \<and> now - cache_file_mtime self > real_of_int (cache_ttl_sec self))"

type_synonym resolution =
  "(py_exc + PublicSuffixListTLDExtractor) \<times> TLDExtract \<times> world"

text \<open>\<open>with open(cached_file) as f: pickle.load(f)\<close>\<close>

definition read_cache :: "library \<Rightarrow> disk_file \<Rightarrow> py_exc + string set" where
  "read_cache lib f =
     (case content f of None \<Rightarrow> Inl IOError | Some bytes \<Rightarrow> pickle_load lib bytes)"

text \<open>
  \<open>try: with open(cached_file, 'w') as f: pickle.dump(tlds, f)
   except IOError: LOG.warn(...)\<close>
\<close>

definition write_cache :: "library \<Rightarrow> real \<Rightarrow> string \<Rightarrow> string set \<Rightarrow> world \<Rightarrow> world" where
  "write_cache lib now cached_file ts w =
     (case writing w cached_file of
        OpenFails \<Rightarrow> LOG WARNING ''unable to cache TLDs in file %s: %s'' w
      | DumpFails n \<Rightarrow>
          LOG WARNING ''unable to cache TLDs in file %s: %s''
            (w\<lparr>files := (files w)(cached_file \<mapsto>
                  \<lparr>mtime = now, content = Some (take n (pickle_dump lib ts))\<rparr>)\<rparr>)
      | DumpCompletes \<Rightarrow>
          w\<lparr>files := (files w)(cached_file \<mapsto>
                \<lparr>mtime = now, content = Some (pickle_dump lib ts)\<rparr>)\<rparr>)"

text \<open>
  The block under \<open>if LOG.isEnabledFor(logging.DEBUG)\<close>: each line of the diff between
  the snapshot and the fetched rules is printed with \<open>print >> sys.stderr, line\<close>. The
  first line printed evaluates the name \<open>sys\<close>, which raises \<open>NameError\<close> unless the
  module runs as \<open>__main__\<close>.
\<close>

definition debug_diff :: "library \<Rightarrow> string \<Rightarrow> string set \<Rightarrow> world \<Rightarrow> py_exc + world" where
  "debug_diff lib cached_file ts w =
     (if debug_enabled w
      then (let diff = unified_diff lib (snapshot w) ts cached_file
            in if diff = [] then Inr w
               else if sys_imported w then Inr (w\<lparr>stderr_lines := stderr_lines w @ diff\<rparr>)
               else Inl NameError)
      else Inr w)"

text \<open>The second half of \<open>_get_tld_extractor\<close>, from \<open>tlds = frozenset()\<close> to the end.\<close>

definition fetch_or_snapshot :: "library \<Rightarrow> real \<Rightarrow> string \<Rightarrow> TLDExtract \<Rightarrow> world \<Rightarrow> resolution" where
  "fetch_or_snapshot lib now cached_file self w =
     (case (if fetch self then PublicSuffixListSource w else (Inr [], w)) of
        (Inl e, w1) \<Rightarrow> (Inl e, self, w1)
      | (Inr toks, w1) \<Rightarrow>
          (let ts = set toks
           in if ts = {}
              then (let ex = \<lparr>tlds = snapshot w1\<rparr>
                    in (Inr ex, self\<lparr>cache_file_mtime := now, extractor := Some ex\<rparr>, w1))
              else (let w2 = LOG INFO ''computed TLDs: %s'' w1
                    in case debug_diff lib cached_file ts w2 of
                         Inl e \<Rightarrow> (Inl e, self, w2)
                       | Inr w3 \<Rightarrow>
                           (let w4 = write_cache lib now cached_file ts w3;
                                ex = \<lparr>tlds = ts\<rparr>
                            in (Inr ex, self\<lparr>cache_file_mtime := now, extractor := Some ex\<rparr>,
                                w4)))))"

text \<open>\<open>cached_file = self.cache_file or os.path.join(moddir, '.tld_set')\<close>\<close>

definition cached_file_of :: "TLDExtract \<Rightarrow> world \<Rightarrow> string" where
  "cached_file_of self w =
     (if cache_file self \<noteq> '''' then cache_file self else default_cache_file w)"

text \<open>
  \<open>_get_tld_extractor\<close>. An instance of \<open>_PublicSuffixListTLDExtractor\<close> is always true,
  so \<open>self._extractor and not self.expired\<close> asks whether the field is set.
\<close>

definition get_tld_extractor :: "library \<Rightarrow> real \<Rightarrow> TLDExtract \<Rightarrow> world \<Rightarrow> resolution" where
  "get_tld_extractor lib now self w =
     (if extractor self \<noteq> None \<and> \<not> expired now self
      then (Inr (the (extractor self)), self, w)
      else (let cached_file = cached_file_of self w
            in case files w cached_file of
                 None \<Rightarrow> fetch_or_snapshot lib now cached_file self w
               | Some f \<Rightarrow>
                   (let self1 = self\<lparr>cache_file_mtime := mtime f\<rparr>
                    in if \<not> expired now self1
                       then (case read_cache lib f of
                               Inr ts \<Rightarrow>
                                 (let ex = \<lparr>tlds = ts\<rparr>
                                  in (Inr ex, self1\<lparr>extractor := Some ex\<rparr>, w))
                             | Inl e \<Rightarrow>
                                 if e = IOError
                                 then fetch_or_snapshot lib now cached_file
                                        (self1\<lparr>cache_file_mtime := 0\<rparr>)
                                        (LOG ERROR ''error reading TLD cache file %s: %s'' w)
                                 else (Inl e, self1, w))
                       else fetch_or_snapshot lib now cached_file self1 w)))"

type_synonym extraction = "(py_exc + ExtractResult) \<times> TLDExtract \<times> world"

text \<open>
  \<open>_extract\<close>. The matcher runs first; the address test runs only when the matcher found
  no suffix. \<open>ip_branch\<close> says that the test is reached and returns the address.
\<close>

definition strip_netloc :: "string \<Rightarrow> string" where
  "strip_netloc netloc = fst (partition_str CHR '':'' (last (split_on CHR ''@'' netloc)))"

definition ip_branch :: "library \<Rightarrow> PublicSuffixListTLDExtractor \<Rightarrow> string \<Rightarrow> bool" where
  "ip_branch lib ex netloc =
     (snd (PSL_extract ex netloc) = '''' \<and> netloc \<noteq> '''' \<and> isdigit (hd netloc)
      \<and> (case inet_aton lib netloc of
            Inr packed \<Rightarrow> True
          | Inl e \<Rightarrow> e = AttributeError \<and> re_match_anchored IP_RE netloc))"

definition TLDExtract_extract :: "library \<Rightarrow> real \<Rightarrow> TLDExtract \<Rightarrow> world \<Rightarrow> string \<Rightarrow> extraction" where
  "TLDExtract_extract lib now self w netloc0 =
     (let netloc = strip_netloc netloc0
      in case get_tld_extractor lib now self w of
           (Inl e, self', w') \<Rightarrow> (Inl e, self', w')
         | (Inr ex, self', w') \<Rightarrow>
             (let (registered_domain, tld_found) = PSL_extract ex netloc;
                  (sub, sep, dom) = rpartition CHR ''.'' registered_domain;
                  split_result = (Inr \<lparr>subdomain = sub, domain = dom, tld = tld_found\<rparr>, self', w');
                  ip_result = (Inr \<lparr>subdomain = '''', domain = netloc, tld = ''''\<rparr>, self', w')
              in if tld_found = '''' \<and> netloc \<noteq> '''' \<and> isdigit (hd netloc)
                 then (case inet_aton lib netloc of
                         Inr packed \<Rightarrow> ip_result
                       | Inl e \<Rightarrow>
                           if e = AttributeError
                           then (if re_match_anchored IP_RE netloc then ip_result
                                 else split_result)
                           else if e = socket_error then split_result
                           else (Inl e, self', w'))
                 else split_result))"

text \<open>\<open>__call__\<close>, and the module's \<open>extract\<close> on the shared instance \<open>TLD_EXTRACTOR\<close>.\<close>

definition TLDExtract_call :: "library \<Rightarrow> real \<Rightarrow> TLDExtract \<Rightarrow> world \<Rightarrow> string \<Rightarrow> extraction" where
  "TLDExtract_call lib now self w url =
     TLDExtract_extract lib now self w (fst (partition_str CHR ''/'' (SCHEME_RE_sub url)))"

definition TLD_EXTRACTOR :: TLDExtract where
  "TLD_EXTRACTOR =
     \<lparr>fetch = True, cache_file = '''', cache_file_mtime = 0, cache_ttl_sec = 0,
      extractor = None\<rparr>"

definition module_extract :: "library \<Rightarrow> real \<Rightarrow> TLDExtract \<Rightarrow> world \<Rightarrow> string \<Rightarrow> extraction" where
  "module_extract lib now tld_extractor w url = TLDExtract_call lib now tld_extractor w url"

section \<open>The specification's words\<close>

text \<open>
  The address form of the specification: exactly four labels separated by dots, each
  the decimal numeral of a number from 0 to 255 (digits only, no leading zero except for
  the numeral \<open>0\<close> itself).
\<close>

definition digit_value :: "char \<Rightarrow> nat" where
  "digit_value c = of_char c - 48"

definition decimal :: "string \<Rightarrow> nat" where
  "decimal s = foldl (\<lambda>n c. 10 * n + digit_value c) 0 s"

definition decimal_octet :: "string \<Rightarrow> bool" where
  "decimal_octet s =
     (s \<noteq> [] \<and> list_all isdigit s \<and> (length s = 1 \<or> hd s \<noteq> CHR ''0'') \<and> decimal s \<le> 255)"

definition ipv4_text :: "string \<Rightarrow> bool" where
  "ipv4_text s =
     (case split_on CHR ''.'' s of
        [a, b, c, d] \<Rightarrow> decimal_octet a \<and> decimal_octet b \<and> decimal_octet c \<and> decimal_octet d
      | _ \<Rightarrow> False)"


section \<open>Values for the examples\<close>

text \<open>
  A small codec stands in for \<open>pickle\<close> in the examples: a marker, then one rule per line.
  Like \<open>pickle.load\<close> it raises \<open>EOFError\<close> on an empty file and \<open>UnpicklingError\<close> on bytes
  that do not start as a pickle. The example platform's socket module has no
  \<open>inet_aton\<close>, so the address test falls back to \<open>IP_RE\<close>. The example diff has one line
  when the two rule sets differ and none when they are equal.
\<close>

definition lines_dump :: "string set \<Rightarrow> string" where
  "lines_dump S = CHR ''S'' # concat (map (\<lambda>r. CHR 0x0A # r) (sorted_list_of_set S))"

definition lines_load :: "string \<Rightarrow> py_exc + string set" where
  "lines_load bs =
     (case bs of
        [] \<Rightarrow> Inl EOFError
      | c # cs \<Rightarrow>
          if c = CHR ''S'' then Inr (set (tl (split_on CHR 0x0A bs))) else Inl UnpicklingError)"

definition example_library :: library where
  "example_library =
     \<lparr>inet_aton = (\<lambda>s. Inl AttributeError), pickle_load = lines_load, pickle_dump = lines_dump,
      unified_diff = (\<lambda>old new tofile. if old = new then [] else [''--- .tld_set_snapshot''])\<rparr>"

text \<open>
  A world with no cache file, a cache path that can be written, a reachable rule page of
  two rules, a snapshot of one rule and the logger above \<open>DEBUG\<close>, in a module that was
  imported.
\<close>

definition example_world :: world where
  "example_world =
     \<lparr>files = (\<lambda>p. None), writing = (\<lambda>p. DumpCompletes),
      page = Inr [CHR ''c'', CHR ''o'', CHR ''m'', CHR 0x0A,
                  CHR ''c'', CHR ''o'', CHR ''.'', CHR ''u'', CHR ''k'', CHR 0x0A],
      snapshot = {''com''}, default_cache_file = ''.tld_set'', debug_enabled = False,
      sys_imported = False, log_records = [], stderr_lines = []\<rparr>"

section \<open>Properties of the string operations\<close>

lemma split_on_nonempty: "split_on c s \<noteq> []"
  by (induction s) (auto split: list.splits)

lemma length_split_on_pos: "0 < length (split_on c s)"
  using split_on_nonempty [of c s] by simp

lemma join_split_on: "join [c] (split_on c s) = s"
proof (induction s)
  case Nil
  show ?case by simp
next
  case (Cons x xs)
  show ?case
  proof (cases "x = c")
    case True
    obtain w ws where sp: "split_on c xs = w # ws"
      using split_on_nonempty [of c xs] by (cases "split_on c xs") auto
    with True Cons show ?thesis by simp
  next
    case False
    obtain w ws where sp: "split_on c xs = w # ws"
      using split_on_nonempty [of c xs] by (cases "split_on c xs") auto
    with False Cons show ?thesis by (cases ws) auto
  qed
qed

lemma join_append:
  "xs \<noteq> [] \<Longrightarrow> ys \<noteq> [] \<Longrightarrow> join sep (xs @ ys) = join sep xs @ sep @ join sep ys"
proof (induction sep xs rule: join.induct)
  case 1
  then show ?case by simp
next
  case (2 x)
  then show ?case by (cases ys) auto
next
  case (3 x y zs)
  then show ?case by simp
qed

section \<open>The matcher's loop\<close>

lemma extract_loop_skip:
  assumes "\<forall>j \<in> set js. \<not> exception_hit ts spl j \<and> \<not> plain_hit ts spl j"
  shows "extract_loop ts spl netloc (js @ rest) = extract_loop ts spl netloc rest"
  using assms by (induction js) (auto simp: exception_hit_def plain_hit_def Let_def)

lemma extract_loop_exception:
  "exception_hit ts spl i \<Longrightarrow>
   extract_loop ts spl netloc (i # rest) =
     (join ''.'' (take (i + 1) spl), join ''.'' (drop (i + 1) spl))"
  by (simp add: exception_hit_def Let_def)

lemma extract_loop_plain:
  "\<not> exception_hit ts spl i \<Longrightarrow> plain_hit ts spl i \<Longrightarrow>
   extract_loop ts spl netloc (i # rest) = (join ''.'' (take i spl), join ''.'' (drop i spl))"
  by (auto simp: exception_hit_def plain_hit_def Let_def)

lemma upt_split_at: "i < n \<Longrightarrow> [0..<n] = [0..<i] @ i # [Suc i..<n]"
  by (metis less_imp_le_nat upt_add_eq_append upt_conv_Cons le0 le_add_diff_inverse)

lemma PSL_extract_first_hit:
  assumes "i < length (split_on CHR ''.'' h)"
    and "\<forall>j<i. \<not> exception_hit R (split_on CHR ''.'' h) j \<and> \<not> plain_hit R (split_on CHR ''.'' h) j"
  shows "PSL_extract \<lparr>tlds = R\<rparr> h =
           extract_loop R (split_on CHR ''.'' h) h (i # [Suc i..<length (split_on CHR ''.'' h)])"
proof -
  let ?L = "split_on CHR ''.'' h"
  have "\<forall>j \<in> set [0..<i]. \<not> exception_hit R ?L j \<and> \<not> plain_hit R ?L j"
    using assms(2) by simp
  then have "extract_loop R ?L h ([0..<i] @ i # [Suc i..<length ?L]) =
             extract_loop R ?L h (i # [Suc i..<length ?L])"
    by (rule extract_loop_skip)
  then show ?thesis
    using upt_split_at [OF assms(1)] by (simp add: PSL_extract_def Let_def)
qed

lemma PSL_extract_no_hit:
  assumes "\<forall>j<length (split_on CHR ''.'' h).
             \<not> exception_hit R (split_on CHR ''.'' h) j \<and> \<not> plain_hit R (split_on CHR ''.'' h) j"
  shows "PSL_extract \<lparr>tlds = R\<rparr> h = (h, '''')"
proof -
  let ?L = "split_on CHR ''.'' h"
  have "\<forall>j \<in> set [0..<length ?L]. \<not> exception_hit R ?L j \<and> \<not> plain_hit R ?L j"
    using assms by simp
  from extract_loop_skip [OF this, of h "[]"] show ?thesis
    by (simp add: PSL_extract_def Let_def)
qed

section \<open>C1: the matcher returns at the first index that hits, exception first\<close>

text \<open>
  Claim C1. For every hostname \<open>h\<close> and rule set \<open>R\<close>, with \<open>L\<close> the labels of \<open>h\<close> split on
  dots: at the least index \<open>i\<close> at which one of the three rules is in \<open>R\<close>, the exception rule
  \<open>"!" + join(L[i:])\<close> is looked up first and gives \<open>(join(L[:i+1]), join(L[i+1:]))\<close>; otherwise
  the wildcard rule \<open>"*." + join(L[i+1:])\<close> or the plain rule \<open>join(L[i:])\<close> gives
  \<open>(join(L[:i]), join(L[i:]))\<close>. With \<open>*.jp\<close> and \<open>!metro.tokyo.jp\<close> in \<open>R\<close>, the hostname
  \<open>metro.tokyo.jp\<close> has prefix \<open>metro\<close> and suffix \<open>tokyo.jp\<close>.
\<close>

theorem suffix_matcher_first_hit:
  "(let L = split_on CHR ''.'' h in
     \<forall>i<length L.
       (\<forall>j<i. CHR ''!'' # join ''.'' (drop j L) \<notin> R
              \<and> ''*.'' @ join ''.'' (drop (j + 1) L) \<notin> R
              \<and> join ''.'' (drop j L) \<notin> R) \<longrightarrow>
       (CHR ''!'' # join ''.'' (drop i L) \<in> R \<longrightarrow>
          PSL_extract \<lparr>tlds = R\<rparr> h = (join ''.'' (take (i + 1) L), join ''.'' (drop (i + 1) L)))
       \<and> (CHR ''!'' # join ''.'' (drop i L) \<notin> R
           \<and> (''*.'' @ join ''.'' (drop (i + 1) L) \<in> R \<or> join ''.'' (drop i L) \<in> R) \<longrightarrow>
          PSL_extract \<lparr>tlds = R\<rparr> h = (join ''.'' (take i L), join ''.'' (drop i L))))
   \<and> (''*.jp'' \<in> R \<and> ''!metro.tokyo.jp'' \<in> R \<longrightarrow>
        PSL_extract \<lparr>tlds = R\<rparr> ''metro.tokyo.jp'' = (''metro'', ''tokyo.jp''))"
proof -
  let ?L = "split_on CHR ''.'' h"
  have general: "PSL_extract \<lparr>tlds = R\<rparr> h = (join ''.'' (take (i + 1) ?L), join ''.'' (drop (i + 1) ?L))"
    if "i < length ?L" "\<forall>j<i. \<not> exception_hit R ?L j \<and> \<not> plain_hit R ?L j" "exception_hit R ?L i" for i
    using PSL_extract_first_hit [OF that(1,2)] extract_loop_exception [OF that(3)] by simp
  have general2: "PSL_extract \<lparr>tlds = R\<rparr> h = (join ''.'' (take i ?L), join ''.'' (drop i ?L))"
    if "i < length ?L" "\<forall>j<i. \<not> exception_hit R ?L j \<and> \<not> plain_hit R ?L j"
       "\<not> exception_hit R ?L i" "plain_hit R ?L i" for i
    using PSL_extract_first_hit [OF that(1,2)] extract_loop_plain [OF that(3,4)] by simp
  have ex: "PSL_extract \<lparr>tlds = R\<rparr> ''metro.tokyo.jp'' = (''metro'', ''tokyo.jp'')"
    if "''!metro.tokyo.jp'' \<in> R"
    using that by (simp add: PSL_extract_def Let_def)
  show ?thesis
    unfolding Let_def
    using general general2 ex
    by (auto simp: exception_hit_def plain_hit_def)
qed

theorem suffix_matcher_first_hit_witness:
  "PSL_extract \<lparr>tlds = {''*.jp'', ''!metro.tokyo.jp''}\<rparr> ''metro.tokyo.jp'' = (''metro'', ''tokyo.jp'')
   \<and> PSL_extract \<lparr>tlds = {''*.jp'', ''!metro.tokyo.jp''}\<rparr> ''www.tokyo.jp'' = (''www'', ''tokyo.jp'')"
proof -
  let ?R = "{''*.jp'', ''!metro.tokyo.jp''}"
  note t = suffix_matcher_first_hit [of "''metro.tokyo.jp''" ?R]
  note u = suffix_matcher_first_hit [of "''www.tokyo.jp''" ?R]
  have a: "PSL_extract \<lparr>tlds = ?R\<rparr> ''metro.tokyo.jp'' = (''metro'', ''tokyo.jp'')"
    using t by simp
  have "1 < length (split_on CHR ''.'' ''www.tokyo.jp'')" by simp
  have b: "PSL_extract \<lparr>tlds = ?R\<rparr> ''www.tokyo.jp'' = (''www'', ''tokyo.jp'')"
    using u [unfolded Let_def, THEN conjunct1, rule_format, of 1, THEN conjunct2] by (simp add: less_Suc_eq)
  from a b show ?thesis by simp
qed

section \<open>Cutting and rejoining label lists\<close>

lemma split_on_no_sep: "l \<in> set (split_on c s) \<Longrightarrow> c \<notin> set l"
proof (induction s arbitrary: l)
  case Nil
  then show ?case by simp
next
  case (Cons x xs)
  obtain w ws where sp: "split_on c xs = w # ws"
    using split_on_nonempty [of c xs] by (cases "split_on c xs") auto
  show ?case
  proof (cases "x = c")
    case True
    with Cons show ?thesis by auto
  next
    case False
    with Cons sp show ?thesis by auto
  qed
qed

lemma join_eq_Nil: "join sep xs = [] \<Longrightarrow> sep \<noteq> [] \<Longrightarrow> xs = [] \<or> xs = [[]]"
  by (induction sep xs rule: join.induct) auto

lemma join_take_drop:
  "0 < k \<Longrightarrow> k < length L \<Longrightarrow> join sep (take k L) @ sep @ join sep (drop k L) = join sep L"
  using join_append [of "take k L" "drop k L" sep] by (cases L) auto

lemma extract_loop_cut:
  assumes "\<forall>i \<in> set idx. i < length L" and "join ''.'' L = h"
  shows "\<exists>k\<le>length L. extract_loop R L h idx = (join ''.'' (take k L), join ''.'' (drop k L))"
  using assms(1)
proof (induction idx)
  case Nil
  have "extract_loop R L h [] = (join ''.'' (take (length L) L), join ''.'' (drop (length L) L))"
    using assms(2) by simp
  then show ?case by blast
next
  case (Cons i idx)
  then have i: "i < length L" and rest: "\<forall>i \<in> set idx. i < length L" by simp_all
  from Cons.IH [OF rest] obtain k where k: "k \<le> length L"
    "extract_loop R L h idx = (join ''.'' (take k L), join ''.'' (drop k L))" by blast
  consider (e) "exception_hit R L i" | (p) "\<not> exception_hit R L i" "plain_hit R L i"
    | (n) "\<not> exception_hit R L i" "\<not> plain_hit R L i" by blast
  then show ?case
  proof cases
    case e
    from extract_loop_exception [OF e] i show ?thesis
      by (intro exI [of _ "i + 1"]) simp
  next
    case p
    from extract_loop_plain [OF p] i show ?thesis
      by (intro exI [of _ i]) simp
  next
    case n
    then have "extract_loop R L h (i # idx) = extract_loop R L h idx"
      by (simp add: exception_hit_def plain_hit_def Let_def)
    with k show ?thesis by auto
  qed
qed

lemma PSL_extract_cut:
  "\<exists>k\<le>length (split_on CHR ''.'' h).
     PSL_extract ex h = (join ''.'' (take k (split_on CHR ''.'' h)),
                         join ''.'' (drop k (split_on CHR ''.'' h)))"
proof -
  have "join ''.'' (split_on CHR ''.'' h) = h" by (rule join_split_on)
  from extract_loop_cut [OF _ this, of "[0..<length (split_on CHR ''.'' h)]" "tlds ex"]
  show ?thesis by (simp add: PSL_extract_def Let_def)
qed

lemma rpartition_last:
  "c \<notin> set b \<Longrightarrow> rpartition c (a @ c # b) = (a, [c], b)"
proof -
  assume nb: "c \<notin> set b"
  have r: "rev (a @ c # b) = rev b @ c # rev a" by simp
  have tw: "takeWhile (\<lambda>x. x \<noteq> c) (rev b @ c # rev a) = rev b"
    using nb by (subst takeWhile_append2) auto
  have dw: "dropWhile (\<lambda>x. x \<noteq> c) (rev b @ c # rev a) = c # rev a"
    using nb by (subst dropWhile_append2) auto
  show ?thesis unfolding rpartition_def r tw dw by simp
qed

lemma rpartition_none: "c \<notin> set s \<Longrightarrow> rpartition c s = ('''', '''', s)"
  by (simp add: rpartition_def)

lemma rpartition_some:
  assumes "c \<in> set s"
  shows "\<exists>a b. rpartition c s = (a, [c], b) \<and> s = a @ c # b \<and> c \<notin> set b"
proof -
  from assms have "c \<in> set (rev s)" by simp
  then obtain ys zs where yz: "rev s = ys @ c # zs" "c \<notin> set ys"
    by (meson split_list_first)
  then have s: "s = rev zs @ c # rev ys"
    by (metis rev_append rev_rev_ident rev.simps(2) append.assoc append_Cons append_Nil)
  have "c \<notin> set (rev ys)" using yz by simp
  from rpartition_last [OF this, of "rev zs"] s show ?thesis
    using yz by auto
qed

lemma join_nonempty: "xs \<noteq> [] \<Longrightarrow> [] \<notin> set xs \<Longrightarrow> join sep xs \<noteq> []"
  by (induction sep xs rule: join.induct) auto

lemma join_snoc: "xs \<noteq> [] \<Longrightarrow> join sep (xs @ [x]) = join sep xs @ sep @ x"
  using join_append [of xs "[x]" sep] by simp

lemma take_as_snoc: "0 < k \<Longrightarrow> k \<le> length L \<Longrightarrow> take k L = take (k - 1) L @ [L ! (k - 1)]"
  by (metis Suc_pred' take_Suc_conv_app_nth Suc_le_lessD)

lemma cut_reconstruct:
  assumes ne: "L \<noteq> []" and lab: "\<forall>l \<in> set L. l \<noteq> [] \<and> c \<notin> set l" and k: "k \<le> length L"
  shows "join [c] (filter (\<lambda>x. x \<noteq> [])
            [fst (rpartition c (join [c] (take k L))),
             snd (snd (rpartition c (join [c] (take k L)))),
             join [c] (drop k L)])
         = join [c] L"
proof -
  have nonempty: "join [c] L \<noteq> []"
    using join_nonempty [OF ne] lab by blast
  show ?thesis
  proof (cases "k = 0")
    case True
    with nonempty show ?thesis by (simp add: rpartition_def)
  next
    case False
    then have kpos: "0 < k" by simp
    let ?d = "L ! (k - 1)"
    have d: "?d \<noteq> []" "c \<notin> set ?d"
      using lab kpos k by (simp_all add: less_le_trans)
    have tk: "take k L = take (k - 1) L @ [?d]"
      using take_as_snoc [OF kpos k] .
    have whole: "join [c] (take k L) @ (if drop k L = [] then [] else [c] @ join [c] (drop k L)) = join [c] L"
    proof (cases "drop k L = []")
      case True
      then have "take k L = L" using k by simp
      with True show ?thesis by simp
    next
      case False
      then have "k < length L" by simp
      from join_take_drop [OF kpos this, of "[c]"] False show ?thesis by simp
    qed
    have sfx: "drop k L \<noteq> [] \<Longrightarrow> join [c] (drop k L) \<noteq> []"
    proof -
      assume a: "drop k L \<noteq> []"
      have "[] \<notin> set (drop k L)" using lab in_set_dropD [of "[]" k L] by blast
      from join_nonempty [OF a this] show ?thesis .
    qed
    show ?thesis
    proof (cases "k = 1")
      case True
      then have p: "join [c] (take k L) = ?d" using tk by simp
      have rp: "rpartition c ?d = ([], [], ?d)"
        using d(2) by (rule rpartition_none)
      show ?thesis
      proof (cases "drop k L = []")
        case True
        with whole p rp d show ?thesis by simp
      next
        case False
        with whole p rp d sfx show ?thesis by simp
      qed
    next
      case False
      with kpos have k2: "take (k - 1) L \<noteq> []" using ne by (cases L) auto
      have "[] \<notin> set (take (k - 1) L)" using lab in_set_takeD [of "[]" "k - 1" L] by blast
      from join_nonempty [OF k2 this] have a: "join [c] (take (k - 1) L) \<noteq> []" .
      have p: "join [c] (take k L) = join [c] (take (k - 1) L) @ c # ?d"
        using join_snoc [OF k2, of "[c]" ?d] tk by simp
      have rp: "rpartition c (join [c] (take k L)) = (join [c] (take (k - 1) L), [c], ?d)"
        unfolding p using d(2) by (rule rpartition_last)
      show ?thesis
      proof (cases "drop k L = []")
        case True
        with whole p rp d a show ?thesis by simp
      next
        case False
        with whole p rp d a sfx show ?thesis by simp
      qed
    qed
  qed
qed

lemma TLDExtract_extract_split:
  assumes res: "get_tld_extractor lib now self w = (Inr ex, self', w')"
    and nip: "\<not> ip_branch lib ex (strip_netloc n0)"
    and ret: "TLDExtract_extract lib now self w n0 = (Inr r, s2, w2)"
  shows "r = \<lparr>subdomain = fst (rpartition CHR ''.'' (fst (PSL_extract ex (strip_netloc n0)))),
              domain = snd (snd (rpartition CHR ''.'' (fst (PSL_extract ex (strip_netloc n0))))),
              tld = snd (PSL_extract ex (strip_netloc n0))\<rparr>
         \<and> s2 = self' \<and> w2 = w'"
  using nip ret
  unfolding TLDExtract_extract_def ip_branch_def res Let_def
  by (auto split: prod.splits sum.splits if_splits)

lemma hit_unfold:
  "(\<not> exception_hit R L j \<and> \<not> plain_hit R L j) =
   (CHR ''!'' # join ''.'' (drop j L) \<notin> R
    \<and> ''*.'' @ join ''.'' (drop (j + 1) L) \<notin> R
    \<and> join ''.'' (drop j L) \<notin> R)"
  by (auto simp: exception_hit_def plain_hit_def)

section \<open>C8: the prefix is split on its last dot\<close>

text \<open>
  Claim C8. When rule-set resolution returns an extractor, the stripped hostname does not
  take the address branch and \<open>_extract\<close> returns a result \<open>r\<close>, then \<open>r.tld\<close> is the matcher's
  suffix and the matcher's prefix is split on its last dot: with a dot in the prefix,
  prefix = \<open>r.subdomain + "." + r.domain\<close> and \<open>r.domain\<close> has no dot; without one,
  \<open>r.subdomain\<close> is empty and \<open>r.domain\<close> is the prefix. When no rule matches at any index the
  matcher returns \<open>(hostname, "")\<close>, and \<open>localhost\<close>, matched by no rule, gives
  \<open>("", "localhost", "")\<close>.
\<close>

theorem extract_splits_prefix_on_last_dot:
  "(get_tld_extractor lib now self w = (Inr ex, self', w')
      \<and> \<not> ip_branch lib ex (strip_netloc n0)
      \<and> TLDExtract_extract lib now self w n0 = (Inr r, s2, w2) \<longrightarrow>
      tld r = snd (PSL_extract ex (strip_netloc n0))
      \<and> (if CHR ''.'' \<in> set (fst (PSL_extract ex (strip_netloc n0)))
         then fst (PSL_extract ex (strip_netloc n0)) = subdomain r @ ''.'' @ domain r
              \<and> CHR ''.'' \<notin> set (domain r)
         else subdomain r = '''' \<and> domain r = fst (PSL_extract ex (strip_netloc n0))))
   \<and> ((\<forall>i<length (split_on CHR ''.'' h).
          CHR ''!'' # join ''.'' (drop i (split_on CHR ''.'' h)) \<notin> tlds ex
          \<and> ''*.'' @ join ''.'' (drop (i + 1) (split_on CHR ''.'' h)) \<notin> tlds ex
          \<and> join ''.'' (drop i (split_on CHR ''.'' h)) \<notin> tlds ex) \<longrightarrow>
        PSL_extract ex h = (h, ''''))
   \<and> (get_tld_extractor lib now self w = (Inr ex, self', w')
        \<and> ''!localhost'' \<notin> tlds ex \<and> ''*.'' \<notin> tlds ex \<and> ''localhost'' \<notin> tlds ex \<longrightarrow>
        TLDExtract_extract lib now self w ''localhost''
          = (Inr \<lparr>subdomain = '''', domain = ''localhost'', tld = ''''\<rparr>, self', w'))"
proof (intro conjI impI)
  assume a: "get_tld_extractor lib now self w = (Inr ex, self', w')
      \<and> \<not> ip_branch lib ex (strip_netloc n0)
      \<and> TLDExtract_extract lib now self w n0 = (Inr r, s2, w2)"
  let ?p = "fst (PSL_extract ex (strip_netloc n0))"
  from a have r: "r = \<lparr>subdomain = fst (rpartition CHR ''.'' ?p),
              domain = snd (snd (rpartition CHR ''.'' ?p)),
              tld = snd (PSL_extract ex (strip_netloc n0))\<rparr>"
    using TLDExtract_extract_split by blast
  show "tld r = snd (PSL_extract ex (strip_netloc n0))" by (simp add: r)
  show "if CHR ''.'' \<in> set ?p
        then ?p = subdomain r @ ''.'' @ domain r \<and> CHR ''.'' \<notin> set (domain r)
        else subdomain r = '''' \<and> domain r = ?p"
  proof (cases "CHR ''.'' \<in> set ?p")
    case True
    from rpartition_some [OF True] obtain a b where
      "rpartition CHR ''.'' ?p = (a, ''.'', b)" "?p = a @ CHR ''.'' # b" "CHR ''.'' \<notin> set b"
      by blast
    with True show ?thesis by (simp add: r)
  next
    case False
    from rpartition_none [OF False] False show ?thesis by (simp add: r)
  qed
next
  assume "\<forall>i<length (split_on CHR ''.'' h).
          CHR ''!'' # join ''.'' (drop i (split_on CHR ''.'' h)) \<notin> tlds ex
          \<and> ''*.'' @ join ''.'' (drop (i + 1) (split_on CHR ''.'' h)) \<notin> tlds ex
          \<and> join ''.'' (drop i (split_on CHR ''.'' h)) \<notin> tlds ex"
  then have "\<forall>j<length (split_on CHR ''.'' h).
             \<not> exception_hit (tlds ex) (split_on CHR ''.'' h) j
             \<and> \<not> plain_hit (tlds ex) (split_on CHR ''.'' h) j"
    by (simp only: hit_unfold)
  from PSL_extract_no_hit [OF this] show "PSL_extract ex h = (h, '''')"
    by (simp add: PSL_extract_def)
next
  assume a: "get_tld_extractor lib now self w = (Inr ex, self', w')
        \<and> ''!localhost'' \<notin> tlds ex \<and> ''*.'' \<notin> tlds ex \<and> ''localhost'' \<notin> tlds ex"
  then have m: "PSL_extract ex ''localhost'' = (''localhost'', '''')"
    by (simp add: PSL_extract_def Let_def)
  have s: "strip_netloc ''localhost'' = ''localhost''"
    by (simp add: strip_netloc_def partition_str_def)
  have d: "\<not> isdigit (CHR ''l'')" by (simp add: isdigit_def)
  show "TLDExtract_extract lib now self w ''localhost''
          = (Inr \<lparr>subdomain = '''', domain = ''localhost'', tld = ''''\<rparr>, self', w')"
    using a d by (simp add: TLDExtract_extract_def s m Let_def rpartition_def)
qed

theorem extract_splits_prefix_on_last_dot_witness:
  "\<forall>lib now w.
     TLDExtract_extract lib now (TLD_EXTRACTOR\<lparr>extractor := Some \<lparr>tlds = {''com'', ''co.uk''}\<rparr>\<rparr>) w
         ''forums.bbc.co.uk''
       = (Inr \<lparr>subdomain = ''forums'', domain = ''bbc'', tld = ''co.uk''\<rparr>,
          TLD_EXTRACTOR\<lparr>extractor := Some \<lparr>tlds = {''com'', ''co.uk''}\<rparr>\<rparr>, w)
     \<and> PSL_extract \<lparr>tlds = {''com'', ''co.uk''}\<rparr> ''localhost'' = (''localhost'', '''')
     \<and> TLDExtract_extract lib now (TLD_EXTRACTOR\<lparr>extractor := Some \<lparr>tlds = {''com'', ''co.uk''}\<rparr>\<rparr>) w
         ''localhost''
       = (Inr \<lparr>subdomain = '''', domain = ''localhost'', tld = ''''\<rparr>,
          TLD_EXTRACTOR\<lparr>extractor := Some \<lparr>tlds = {''com'', ''co.uk''}\<rparr>\<rparr>, w)"
proof (intro allI)
  fix lib :: library and now :: real and w :: world
  let ?ex = "\<lparr>tlds = {''com'', ''co.uk''}\<rparr>"
  let ?S = "TLD_EXTRACTOR\<lparr>extractor := Some ?ex\<rparr>"
  let ?h = "''forums.bbc.co.uk''"
  have res: "get_tld_extractor lib now ?S w = (Inr ?ex, ?S, w)"
    by (simp add: get_tld_extractor_def expired_def TLD_EXTRACTOR_def)
  have st: "strip_netloc ?h = ?h"
    by (simp add: strip_netloc_def partition_str_def)
  have m: "PSL_extract ?ex ?h = (''forums.bbc'', ''co.uk'')"
    by (simp add: PSL_extract_def Let_def)
  have nip: "\<not> ip_branch lib ?ex (strip_netloc ?h)"
    by (simp add: ip_branch_def st m)
  obtain r s2 w2 where ret: "TLDExtract_extract lib now ?S w ?h = (Inr r, s2, w2)"
    by (simp add: TLDExtract_extract_def res st m Let_def rpartition_def split: prod.splits)
  have sw: "s2 = ?S" "w2 = w"
    using ret by (auto simp: TLDExtract_extract_def res st m Let_def rpartition_def split: prod.splits)
  note inst = extract_splits_prefix_on_last_dot [where lib = lib and now = now and self = ?S
      and w = w and ex = ?ex and self' = ?S and w' = w and ?n0.0 = ?h and r = r and ?s2.0 = s2
      and ?w2.0 = w2 and h = "''localhost''"]
  from inst res nip ret have
    a: "tld r = ''co.uk''" and b: "''forums.bbc'' = subdomain r @ ''.'' @ domain r"
      and c: "CHR ''.'' \<notin> set (domain r)"
    by (simp_all add: st m)
  from b c have "subdomain r = ''forums'' \<and> domain r = ''bbc''"
    using rpartition_last [OF c, of "subdomain r"] rpartition_last [of "CHR ''.''" "''bbc''" "''forums''"]
    by simp
  with a have r: "r = \<lparr>subdomain = ''forums'', domain = ''bbc'', tld = ''co.uk''\<rparr>" by simp
  have l1: "PSL_extract ?ex ''localhost'' = (''localhost'', '''')"
    using inst by (simp add: less_Suc_eq)
  have l2: "TLDExtract_extract lib now ?S w ''localhost''
       = (Inr \<lparr>subdomain = '''', domain = ''localhost'', tld = ''''\<rparr>, ?S, w)"
    using inst res by simp
  from ret r sw l1 l2 show
    "TLDExtract_extract lib now ?S w ?h = (Inr \<lparr>subdomain = ''forums'', domain = ''bbc'', tld = ''co.uk''\<rparr>, ?S, w)
     \<and> PSL_extract ?ex ''localhost'' = (''localhost'', '''')
     \<and> TLDExtract_extract lib now ?S w ''localhost''
       = (Inr \<lparr>subdomain = '''', domain = ''localhost'', tld = ''''\<rparr>, ?S, w)"
    by simp
qed

section \<open>C9: the matcher cuts the hostname between two labels\<close>

text \<open>
  Claim C9, amended. The matcher's pair \<open>(prefix, suffix)\<close> cuts the label list of \<open>h\<close> in
  two. If both parts are non-empty, \<open>prefix + "." + suffix = h\<close>. If the prefix is empty and
  \<open>h\<close> does not start with a dot, the suffix is \<open>h\<close>; if the suffix is empty and \<open>h\<close> does not
  end with a dot, the prefix is \<open>h\<close>. For a stripped hostname that is empty or has no
  empty label and does not take the address branch, joining the non-empty components of
  the result with dots gives the stripped hostname back.
\<close>

theorem matcher_cut_reconstructs:
  "(case PSL_extract ex h of
      (p, s) \<Rightarrow> (p \<noteq> [] \<and> s \<noteq> [] \<longrightarrow> p @ ''.'' @ s = h)
              \<and> (\<not> prefix ''.'' h \<and> p = [] \<longrightarrow> s = h)
              \<and> (\<not> suffix ''.'' h \<and> s = [] \<longrightarrow> p = h))
   \<and> (get_tld_extractor lib now self w = (Inr ex, self', w')
        \<and> h = strip_netloc n0
        \<and> \<not> ip_branch lib ex h
        \<and> TLDExtract_extract lib now self w n0 = (Inr r, s2, w2)
        \<and> (h = [] \<or> [] \<notin> set (split_on CHR ''.'' h)) \<longrightarrow>
        join ''.'' (filter (\<lambda>x. x \<noteq> []) [subdomain r, domain r, tld r]) = h)"
proof (intro conjI impI)
  let ?L = "split_on CHR ''.'' h"
  obtain k where k: "k \<le> length ?L"
    and cut: "PSL_extract ex h = (join ''.'' (take k ?L), join ''.'' (drop k ?L))"
    using PSL_extract_cut by blast
  have whole: "join ''.'' ?L = h" by (rule join_split_on)
  have ne: "?L \<noteq> []" by (rule split_on_nonempty)
  have both: "join ''.'' (take k ?L) @ ''.'' @ join ''.'' (drop k ?L) = h"
    if "join ''.'' (take k ?L) \<noteq> []" "join ''.'' (drop k ?L) \<noteq> []"
  proof -
    from that have "0 < k" "k < length ?L" using k by (auto intro: gr0I simp: le_less)
    from join_take_drop [OF this, of "''.''"] whole show ?thesis by simp
  qed
  have pre: "join ''.'' (drop k ?L) = h"
    if "\<not> prefix ''.'' h" "join ''.'' (take k ?L) = []"
  proof -
    from join_eq_Nil [OF that(2)] have "take k ?L = [] \<or> take k ?L = [[]]" by simp
    then show ?thesis
    proof
      assume "take k ?L = []"
      with ne have "k = 0" by simp
      with whole show ?thesis by simp
    next
      assume t: "take k ?L = [[]]"
      show ?thesis
      proof (cases "drop k ?L = []")
        case True
        with t have "?L = [[]]" by (metis append_take_drop_id append_Nil2)
        with whole True show ?thesis by simp
      next
        case False
        then obtain y ys where d: "drop k ?L = y # ys" by (cases "drop k ?L") auto
        have "?L = [] # y # ys" using t d by (metis append_take_drop_id append_Cons append_Nil)
        then have "join ''.'' ?L = ''.'' @ join ''.'' (y # ys)" by simp
        with whole have "prefix ''.'' h" by (metis prefixI)
        with that(1) show ?thesis by simp
      qed
    qed
  qed
  have suf: "join ''.'' (take k ?L) = h"
    if "\<not> suffix ''.'' h" "join ''.'' (drop k ?L) = []"
  proof -
    from join_eq_Nil [OF that(2)] have "drop k ?L = [] \<or> drop k ?L = [[]]" by simp
    then show ?thesis
    proof
      assume "drop k ?L = []"
      then have "take k ?L = ?L" using k by simp
      with whole show ?thesis by simp
    next
      assume d: "drop k ?L = [[]]"
      show ?thesis
      proof (cases "take k ?L = []")
        case True
        with d have "?L = [[]]" by (metis append_take_drop_id append_Nil)
        with whole True show ?thesis by simp
      next
        case False
        have "?L = take k ?L @ [[]]" using d by (metis append_take_drop_id)
        then have "join ''.'' ?L = join ''.'' (take k ?L) @ ''.'' @ []"
          using join_snoc [OF False, of "''.''" "[]"] by simp
        with whole have "suffix ''.'' h" by (metis suffixI append_Nil2)
        with that(1) show ?thesis by simp
      qed
    qed
  qed
  show "case PSL_extract ex h of
      (p, s) \<Rightarrow> (p \<noteq> [] \<and> s \<noteq> [] \<longrightarrow> p @ ''.'' @ s = h)
              \<and> (\<not> prefix ''.'' h \<and> p = [] \<longrightarrow> s = h)
              \<and> (\<not> suffix ''.'' h \<and> s = [] \<longrightarrow> p = h)"
    unfolding cut using both pre suf by simp
next
  assume a: "get_tld_extractor lib now self w = (Inr ex, self', w')
        \<and> h = strip_netloc n0
        \<and> \<not> ip_branch lib ex h
        \<and> TLDExtract_extract lib now self w n0 = (Inr r, s2, w2)
        \<and> (h = [] \<or> [] \<notin> set (split_on CHR ''.'' h))"
  let ?L = "split_on CHR ''.'' h"
  obtain k where k: "k \<le> length ?L"
    and cut: "PSL_extract ex h = (join ''.'' (take k ?L), join ''.'' (drop k ?L))"
    using PSL_extract_cut by blast
  have whole: "join ''.'' ?L = h" by (rule join_split_on)
  from a have r: "r = \<lparr>subdomain = fst (rpartition CHR ''.'' (fst (PSL_extract ex h))),
              domain = snd (snd (rpartition CHR ''.'' (fst (PSL_extract ex h)))),
              tld = snd (PSL_extract ex h)\<rparr>"
    using TLDExtract_extract_split [of lib now self w ex self' w' n0 r s2 w2] by blast
  show "join ''.'' (filter (\<lambda>x. x \<noteq> []) [subdomain r, domain r, tld r]) = h"
  proof (cases "h = []")
    case True
    then have "PSL_extract ex h = ([], []) "
      using cut k by (cases k) auto
    with True show ?thesis by (simp add: r rpartition_def)
  next
    case False
    with a have lab: "\<forall>l \<in> set ?L. l \<noteq> [] \<and> CHR ''.'' \<notin> set l"
      using split_on_no_sep by blast
    from cut_reconstruct [OF split_on_nonempty lab k] whole
    show ?thesis
      by (simp add: r cut)
  qed
qed

text \<open>
  The claim as stated fails on a hostname with a leading dot: with the rule \<open>com\<close>, the
  hostname \<open>.com\<close> is cut into the prefix \<open>""\<close> (the one empty label) and the suffix \<open>com\<close>,
  which is not the hostname.
\<close>

theorem matcher_leading_dot_counterexample:
  "\<not> (case PSL_extract \<lparr>tlds = {''com''}\<rparr> ''.com'' of
        (p, s) \<Rightarrow> (p \<noteq> [] \<and> s \<noteq> [] \<longrightarrow> p @ ''.'' @ s = ''.com'')
                \<and> (p = [] \<longrightarrow> s = ''.com'')
                \<and> (s = [] \<longrightarrow> p = ''.com''))"
  by (simp add: PSL_extract_def Let_def)

theorem matcher_cut_reconstructs_witness:
  "\<forall>lib now w. \<exists>r.
     TLDExtract_extract lib now (TLD_EXTRACTOR\<lparr>extractor := Some \<lparr>tlds = {''com'', ''co.uk''}\<rparr>\<rparr>) w
         ''user@forums.bbc.co.uk:8080''
       = (Inr r, TLD_EXTRACTOR\<lparr>extractor := Some \<lparr>tlds = {''com'', ''co.uk''}\<rparr>\<rparr>, w)
     \<and> join ''.'' (filter (\<lambda>x. x \<noteq> []) [subdomain r, domain r, tld r]) = ''forums.bbc.co.uk''
     \<and> fst (PSL_extract \<lparr>tlds = {''com'', ''co.uk''}\<rparr> ''forums.bbc.co.uk'') @ ''.''
         @ snd (PSL_extract \<lparr>tlds = {''com'', ''co.uk''}\<rparr> ''forums.bbc.co.uk'') = ''forums.bbc.co.uk''
     \<and> PSL_extract \<lparr>tlds = {''com'', ''co.uk''}\<rparr> ''co.uk'' = ('''', ''co.uk'')
     \<and> PSL_extract \<lparr>tlds = {''com'', ''co.uk''}\<rparr> ''localhost'' = (''localhost'', '''')"
proof (intro allI)
  fix lib :: library and now :: real and w :: world
  let ?ex = "\<lparr>tlds = {''com'', ''co.uk''}\<rparr>"
  let ?S = "TLD_EXTRACTOR\<lparr>extractor := Some ?ex\<rparr>"
  let ?n0 = "''user@forums.bbc.co.uk:8080''"
  let ?h = "''forums.bbc.co.uk''"
  have res: "get_tld_extractor lib now ?S w = (Inr ?ex, ?S, w)"
    by (simp add: get_tld_extractor_def expired_def TLD_EXTRACTOR_def)
  have st: "strip_netloc ?n0 = ?h"
    by (simp add: strip_netloc_def partition_str_def)
  have m: "PSL_extract ?ex ?h = (''forums.bbc'', ''co.uk'')"
    by (simp add: PSL_extract_def Let_def)
  have nip: "\<not> ip_branch lib ?ex ?h"
    by (simp add: ip_branch_def m)
  obtain r where ret: "TLDExtract_extract lib now ?S w ?n0 = (Inr r, ?S, w)"
    by (simp add: TLDExtract_extract_def res st m Let_def rpartition_def split: prod.splits)
  have lab: "[] \<notin> set (split_on CHR ''.'' ?h)" by simp
  note inst = matcher_cut_reconstructs [where ex = ?ex and h = ?h and lib = lib and now = now
      and self = ?S and w = w and self' = ?S and w' = w and ?n0.0 = ?n0 and r = r and ?s2.0 = ?S
      and ?w2.0 = w]
  from inst res st nip ret lab
  have a: "join ''.'' (filter (\<lambda>x. x \<noteq> []) [subdomain r, domain r, tld r]) = ?h"
    by simp
  from inst have b: "fst (PSL_extract ?ex ?h) @ ''.'' @ snd (PSL_extract ?ex ?h) = ?h"
    by (simp add: m)
  have c: "PSL_extract ?ex ''co.uk'' = ('''', ''co.uk'')"
  proof -
    have p0: "fst (PSL_extract ?ex ''co.uk'') = ''''"
      by (simp add: PSL_extract_def Let_def)
    have np: "\<not> prefix ''.'' ''co.uk''" by simp
    obtain p s where ps: "PSL_extract ?ex ''co.uk'' = (p, s)"
      by (cases "PSL_extract ?ex ''co.uk''")
    note i = matcher_cut_reconstructs [where ex = ?ex and h = "''co.uk''", THEN conjunct1,
        unfolded ps prod.case]
    from i have imp: "\<not> prefix ''.'' ''co.uk'' \<and> p = [] \<longrightarrow> s = ''co.uk''"
      by (rule conjunct2 [THEN conjunct1])
    from p0 ps have "p = []" by simp
    with imp np have "s = ''co.uk''" by blast
    with ps \<open>p = []\<close> show ?thesis by simp
  qed
  have d: "PSL_extract ?ex ''localhost'' = (''localhost'', '''')"
  proof -
    have s0: "snd (PSL_extract ?ex ''localhost'') = ''''"
      by (simp add: PSL_extract_def Let_def)
    have ns: "\<not> suffix ''.'' ''localhost''" by (simp add: suffix_to_prefix)
    obtain p s where ps: "PSL_extract ?ex ''localhost'' = (p, s)"
      by (cases "PSL_extract ?ex ''localhost''")
    note i = matcher_cut_reconstructs [where ex = ?ex and h = "''localhost''", THEN conjunct1,
        unfolded ps prod.case]
    from i have imp: "\<not> suffix ''.'' ''localhost'' \<and> s = [] \<longrightarrow> p = ''localhost''"
      by (rule conjunct2 [THEN conjunct2])
    from s0 ps have "s = []" by simp
    with imp ns have "p = ''localhost''" by blast
    with ps \<open>s = []\<close> show ?thesis by simp
  qed
  from ret a b c d show "\<exists>r. TLDExtract_extract lib now ?S w ?n0 = (Inr r, ?S, w)
     \<and> join ''.'' (filter (\<lambda>x. x \<noteq> []) [subdomain r, domain r, tld r]) = ?h
     \<and> fst (PSL_extract ?ex ?h) @ ''.'' @ snd (PSL_extract ?ex ?h) = ?h
     \<and> PSL_extract ?ex ''co.uk'' = ('''', ''co.uk'')
     \<and> PSL_extract ?ex ''localhost'' = (''localhost'', '''')"
    by blast
qed

section \<open>C4: fetch disabled with a positive TTL is rejected\<close>

text \<open>
  Claim C4. Constructing an extractor with \<open>fetch=False\<close> and \<open>cache_ttl_sec > 0\<close> returns no
  instance: the constructor raises \<open>ValueError\<close>, for every cache file argument; in
  particular \<open>TLDExtract(fetch=False, cache_ttl_sec=5)\<close> raises.
\<close>

theorem init_rejects_ttl_without_fetch:
  "(0 < ttl \<longrightarrow> TLDExtract_init False cf ttl = Inl ValueError)
   \<and> TLDExtract_init False cf 5 = Inl ValueError"
  by (simp add: TLDExtract_init_def Let_def)

theorem init_rejects_ttl_without_fetch_witness:
  "TLDExtract_init False '''' 5 = Inl ValueError \<and> TLDExtract_init False ''/tmp/tlds'' 3600 = Inl ValueError"
  using init_rejects_ttl_without_fetch [of 5 "''''"] init_rejects_ttl_without_fetch [of 3600 "''/tmp/tlds''"]
  by simp

section \<open>What rule-set resolution does to the world\<close>

lemma LOG_fields:
  "files (LOG lv msg w) = files w" "writing (LOG lv msg w) = writing w"
  "page (LOG lv msg w) = page w" "snapshot (LOG lv msg w) = snapshot w"
  "default_cache_file (LOG lv msg w) = default_cache_file w"
  "debug_enabled (LOG lv msg w) = debug_enabled w"
  "sys_imported (LOG lv msg w) = sys_imported w"
  "stderr_lines (LOG lv msg w) = stderr_lines w"
  by (simp_all add: LOG_def)

lemma source_fields:
  assumes "PublicSuffixListSource w = (r, w1)"
  shows "files w1 = files w \<and> writing w1 = writing w \<and> page w1 = page w
         \<and> snapshot w1 = snapshot w \<and> default_cache_file w1 = default_cache_file w
         \<and> debug_enabled w1 = debug_enabled w \<and> sys_imported w1 = sys_imported w"
  using assms
  by (auto simp: PublicSuffixListSource_def fetch_page_def LOG_fields
      split: sum.splits if_splits prod.splits)

lemma write_cache_fields:
  "snapshot (write_cache lib now path S w) = snapshot w"
  "default_cache_file (write_cache lib now path S w) = default_cache_file w"
  "page (write_cache lib now path S w) = page w"
  "writing (write_cache lib now path S w) = writing w"
  by (simp_all add: write_cache_def LOG_fields split: write_outcome.splits)

lemma write_cache_file:
  "files (write_cache lib now path S w) path =
     (case writing w path of
        OpenFails \<Rightarrow> files w path
      | DumpFails n \<Rightarrow> Some \<lparr>mtime = now, content = Some (take n (pickle_dump lib S))\<rparr>
      | DumpCompletes \<Rightarrow> Some \<lparr>mtime = now, content = Some (pickle_dump lib S)\<rparr>)"
  by (simp add: write_cache_def LOG_fields split: write_outcome.splits)

text \<open>
  After a write that completes, reading the cache file gives what \<open>pickle.load\<close> makes
  of the bytes of \<open>pickle.dump\<close>. That the two are inverse to each other is a property of
  the \<open>pickle\<close> module, which is no part of this program.
\<close>

lemma write_cache_read_back:
  assumes "writing w path = DumpCompletes"
  shows "\<exists>f. files (write_cache lib now path S w) path = Some f
           \<and> read_cache lib f = pickle_load lib (pickle_dump lib S)"
  using assms by (simp add: write_cache_file read_cache_def)

lemma debug_diff_fields:
  assumes "debug_diff lib path S w = Inr w'"
  shows "files w' = files w \<and> writing w' = writing w \<and> page w' = page w
         \<and> snapshot w' = snapshot w \<and> default_cache_file w' = default_cache_file w
         \<and> log_records w' = log_records w"
  using assms by (auto simp: debug_diff_def Let_def split: if_splits)


lemma debug_diff_raises:
  assumes "debug_enabled w" and "\<not> sys_imported w"
    and "unified_diff lib (snapshot w) S path \<noteq> []"
  shows "debug_diff lib path S w = Inl NameError"
  using assms by (simp add: debug_diff_def Let_def)






lemma fetch_or_snapshot_fetched:
  assumes "fetch self" and "PublicSuffixListSource w = (Inr toks, w1)" and "toks \<noteq> []"
    and "debug_diff lib path (set toks) (LOG INFO ''computed TLDs: %s'' w1) = Inr w3"
  shows "fetch_or_snapshot lib now path self w =
           (Inr \<lparr>tlds = set toks\<rparr>,
            self\<lparr>cache_file_mtime := now, extractor := Some \<lparr>tlds = set toks\<rparr>\<rparr>,
            write_cache lib now path (set toks) w3)"
  using assms by (simp add: fetch_or_snapshot_def Let_def)

text \<open>
  With the logger at \<open>DEBUG\<close> in an imported module, fetched rules that differ from the
  snapshot raise \<open>NameError\<close> before the cache file is written and before the instance
  is changed.
\<close>

lemma fetch_or_snapshot_name_error:
  assumes "fetch self" and "PublicSuffixListSource w = (Inr toks, w1)" and "toks \<noteq> []"
    and "debug_enabled w" and "\<not> sys_imported w"
    and "unified_diff lib (snapshot w) (set toks) path \<noteq> []"
  shows "fetch_or_snapshot lib now path self w
           = (Inl NameError, self, LOG INFO ''computed TLDs: %s'' w1)"
proof -
  let ?v2 = "LOG INFO ''computed TLDs: %s'' w1"
  from source_fields [OF assms(2)] assms(4,5,6)
  have "debug_enabled ?v2" "\<not> sys_imported ?v2"
    "unified_diff lib (snapshot ?v2) (set toks) path \<noteq> []"
    by (simp_all add: LOG_fields)
  then have "debug_diff lib path (set toks) ?v2 = Inl NameError"
    by (rule debug_diff_raises)
  with assms(1,2,3) show ?thesis by (simp add: fetch_or_snapshot_def Let_def)
qed

text \<open>Every way through the second half of \<open>_get_tld_extractor\<close>.\<close>

lemma fetch_or_snapshot_ways:
  assumes "fetch_or_snapshot lib now path s v = (r, s', v')"
  obtains (raised) e where "r = Inl e" "s' = s" "files v' = files v"
      "default_cache_file v' = default_cache_file v" "snapshot v' = snapshot v"
    | (bundled) "r = Inr \<lparr>tlds = snapshot v\<rparr>"
      "s' = s\<lparr>cache_file_mtime := now, extractor := Some \<lparr>tlds = snapshot v\<rparr>\<rparr>"
      "files v' = files v" "default_cache_file v' = default_cache_file v"
      "snapshot v' = snapshot v"
    | (fetched) toks v3 where "toks \<noteq> []" "r = Inr \<lparr>tlds = set toks\<rparr>"
      "s' = s\<lparr>cache_file_mtime := now, extractor := Some \<lparr>tlds = set toks\<rparr>\<rparr>"
      "v' = write_cache lib now path (set toks) v3"
      "files v3 = files v" "writing v3 = writing v"
      "default_cache_file v3 = default_cache_file v" "snapshot v3 = snapshot v"
proof (cases "fetch s")
  case False
  with assms have "r = Inr \<lparr>tlds = snapshot v\<rparr>"
    "s' = s\<lparr>cache_file_mtime := now, extractor := Some \<lparr>tlds = snapshot v\<rparr>\<rparr>" "v' = v"
    by (auto simp: fetch_or_snapshot_def Let_def)
  then show ?thesis by (intro bundled) simp_all
next
  case True
  obtain q v1 where src: "PublicSuffixListSource v = (q, v1)"
    by (cases "PublicSuffixListSource v") auto
  note f1 = source_fields [OF src]
  show ?thesis
  proof (cases q)
    case (Inl e)
    with assms True src have "r = Inl e" "s' = s" "v' = v1"
      by (auto simp: fetch_or_snapshot_def)
    with f1 show ?thesis by (intro raised [of e]) simp_all
  next
    case (Inr toks)
    show ?thesis
    proof (cases "toks = []")
      case True
      with assms \<open>fetch s\<close> src Inr have "r = Inr \<lparr>tlds = snapshot v1\<rparr>"
        "s' = s\<lparr>cache_file_mtime := now, extractor := Some \<lparr>tlds = snapshot v1\<rparr>\<rparr>" "v' = v1"
        by (auto simp: fetch_or_snapshot_def Let_def)
      with f1 show ?thesis by (intro bundled) simp_all
    next
      case False
      let ?v2 = "LOG INFO ''computed TLDs: %s'' v1"
      show ?thesis
      proof (cases "debug_diff lib path (set toks) ?v2")
        case diff: (Inl e)
        with assms \<open>fetch s\<close> src Inr False have "r = Inl e" "s' = s" "v' = ?v2"
          by (auto simp: fetch_or_snapshot_def Let_def)
        with f1 show ?thesis by (intro raised [of e]) (simp_all add: LOG_fields)
      next
        case diff: (Inr v3)
        from fetch_or_snapshot_fetched [OF \<open>fetch s\<close> src [unfolded Inr] False diff] assms
        have "r = Inr \<lparr>tlds = set toks\<rparr>"
          "s' = s\<lparr>cache_file_mtime := now, extractor := Some \<lparr>tlds = set toks\<rparr>\<rparr>"
          "v' = write_cache lib now path (set toks) v3"
          by simp_all
        with False f1 debug_diff_fields [OF diff] show ?thesis
          by (intro fetched [of toks v3]) (simp_all add: LOG_fields)
      qed
    qed
  qed
qed


lemma fetch_or_snapshot_world:
  assumes "fetch_or_snapshot lib now path s v = (r, s', v')"
  shows "default_cache_file v' = default_cache_file v \<and> snapshot v' = snapshot v"
  using assms
proof (cases rule: fetch_or_snapshot_ways)
  case (fetched toks v3)
  then show ?thesis by (simp add: write_cache_fields)
qed simp_all

lemma fetch_or_snapshot_config:
  assumes "fetch_or_snapshot lib now path self w = (r, self', w')"
  shows "cache_ttl_sec self' = cache_ttl_sec self \<and> fetch self' = fetch self
         \<and> cache_file self' = cache_file self"
  using assms by (cases rule: fetch_or_snapshot_ways) simp_all

text \<open>
  Every way through \<open>_get_tld_extractor\<close>: the extractor it holds, the cache file's rule
  set, an exception of the cache read, or the second half run on an instance and a world
  that differ from the given ones in the recorded time and the log only.
\<close>

lemma get_tld_extractor_reload:
  assumes "\<not> (extractor self \<noteq> None \<and> \<not> expired now self)"
  shows "get_tld_extractor lib now self w =
     (case files w (cached_file_of self w) of
        None \<Rightarrow> fetch_or_snapshot lib now (cached_file_of self w) self w
      | Some f \<Rightarrow>
          if \<not> expired now (self\<lparr>cache_file_mtime := mtime f\<rparr>)
          then (case read_cache lib f of
                  Inr ts \<Rightarrow>
                    (Inr \<lparr>tlds = ts\<rparr>,
                     self\<lparr>cache_file_mtime := mtime f, extractor := Some \<lparr>tlds = ts\<rparr>\<rparr>, w)
                | Inl e \<Rightarrow>
                    if e = IOError
                    then fetch_or_snapshot lib now (cached_file_of self w)
                           (self\<lparr>cache_file_mtime := 0\<rparr>)
                           (LOG ERROR ''error reading TLD cache file %s: %s'' w)
                    else (Inl e, self\<lparr>cache_file_mtime := mtime f\<rparr>, w))
          else fetch_or_snapshot lib now (cached_file_of self w)
                 (self\<lparr>cache_file_mtime := mtime f\<rparr>) w)"
proof -
  from assms have "get_tld_extractor lib now self w =
      (let cached_file = cached_file_of self w
            in case files w cached_file of
                 None \<Rightarrow> fetch_or_snapshot lib now cached_file self w
               | Some f \<Rightarrow>
                   (let self1 = self\<lparr>cache_file_mtime := mtime f\<rparr>
                    in if \<not> expired now self1
                       then (case read_cache lib f of
                               Inr ts \<Rightarrow>
                                 (let ex = \<lparr>tlds = ts\<rparr>
                                  in (Inr ex, self1\<lparr>extractor := Some ex\<rparr>, w))
                             | Inl e \<Rightarrow>
                                 if e = IOError
                                 then fetch_or_snapshot lib now cached_file
                                        (self1\<lparr>cache_file_mtime := 0\<rparr>)
                                        (LOG ERROR ''error reading TLD cache file %s: %s'' w)
                                 else (Inl e, self1, w))
                       else fetch_or_snapshot lib now cached_file self1 w))"
    unfolding get_tld_extractor_def by (rule if_not_P)
  then show ?thesis
    by (simp add: Let_def split: option.splits sum.splits)
qed

lemma get_tld_extractor_ways:
  assumes "get_tld_extractor lib now self w = (r, self', w')"
  obtains (held) ex where "extractor self = Some ex" "r = Inr ex" "self' = self" "w' = w"
    | (cached) f S where "files w (cached_file_of self w) = Some f" "read_cache lib f = Inr S"
        "r = Inr \<lparr>tlds = S\<rparr>"
        "self' = self\<lparr>cache_file_mtime := mtime f, extractor := Some \<lparr>tlds = S\<rparr>\<rparr>" "w' = w"
    | (raised) e m where "r = Inl e" "self' = self\<lparr>cache_file_mtime := m\<rparr>" "w' = w"
    | (second) s v where
        "fetch_or_snapshot lib now (cached_file_of self w) s v = (r, self', w')"
        "fetch s = fetch self" "cache_ttl_sec s = cache_ttl_sec self"
        "cache_file s = cache_file self" "files v = files w" "page v = page w"
        "snapshot v = snapshot w" "default_cache_file v = default_cache_file w"
proof (cases "extractor self \<noteq> None \<and> \<not> expired now self")
  case True
  then obtain ex where ex: "extractor self = Some ex" by auto
  with True assms have "r = Inr ex" "self' = self" "w' = w"
    by (simp_all add: get_tld_extractor_def)
  with ex show ?thesis by (rule held)
next
  case False
  note reload = get_tld_extractor_reload [OF False, of lib w]
  let ?path = "cached_file_of self w"
  show ?thesis
  proof (cases "files w ?path")
    case None
    with assms reload have "fetch_or_snapshot lib now ?path self w = (r, self', w')"
      by simp
    then show ?thesis by (rule second) simp_all
  next
    case (Some f)
    let ?s1 = "self\<lparr>cache_file_mtime := mtime f\<rparr>"
    show ?thesis
    proof (cases "expired now ?s1")
      case True
      with assms reload Some have "fetch_or_snapshot lib now ?path ?s1 w = (r, self', w')"
        by simp
      then show ?thesis by (rule second) simp_all
    next
      case fresh: False
      show ?thesis
      proof (cases "read_cache lib f")
        case (Inr S)
        with assms reload Some fresh
        have "r = Inr \<lparr>tlds = S\<rparr>"
          "self' = self\<lparr>cache_file_mtime := mtime f, extractor := Some \<lparr>tlds = S\<rparr>\<rparr>" "w' = w"
          by auto
        with Some Inr show ?thesis by (rule cached)
      next
        case (Inl e)
        show ?thesis
        proof (cases "e = IOError")
          case True
          let ?s2 = "self\<lparr>cache_file_mtime := 0\<rparr>"
          let ?v = "LOG ERROR ''error reading TLD cache file %s: %s'' w"
          from assms reload Some fresh Inl True
          have "fetch_or_snapshot lib now ?path ?s2 ?v = (r, self', w')"
            by simp
          then show ?thesis by (rule second) (simp_all add: LOG_fields)
        next
          case False
          with assms reload Some fresh Inl
          have "r = Inl e" "self' = self\<lparr>cache_file_mtime := mtime f\<rparr>" "w' = w" by auto
          then show ?thesis by (rule raised [of e "mtime f"])
        qed
      qed
    qed
  qed
qed

lemma get_tld_extractor_world:
  assumes "get_tld_extractor lib now self w = (r, self', w')"
  shows "default_cache_file w' = default_cache_file w \<and> snapshot w' = snapshot w"
  using assms
proof (cases rule: get_tld_extractor_ways)
  case (second s v)
  from fetch_or_snapshot_world [OF second(1)] second(7,8) show ?thesis by simp
qed simp_all

lemma get_tld_extractor_config:
  assumes "get_tld_extractor lib now self w = (r, self', w')"
  shows "cache_ttl_sec self' = cache_ttl_sec self \<and> fetch self' = fetch self
         \<and> cache_file self' = cache_file self"
  using assms
proof (cases rule: get_tld_extractor_ways)
  case (second s v)
  from fetch_or_snapshot_config [OF second(1)] second(2,3,4) show ?thesis by simp
qed simp_all

section \<open>C10: a negative TTL is clamped to zero\<close>

text \<open>
  Claim C10. For every \<open>fetch\<close> value and every \<open>cache_ttl_sec < 0\<close> the constructor
  returns an instance, also with \<open>fetch=False\<close>; its \<open>cache_ttl_sec\<close> is 0, its \<open>expired\<close> test
  is false at every time and for every value of the other fields, and rule-set
  resolution leaves an instance whose \<open>expired\<close> test is false as well.
\<close>

theorem init_clamps_negative_ttl:
  "ttl < 0 \<longrightarrow>
     (\<exists>self. TLDExtract_init f cf ttl = Inr self
        \<and> cache_ttl_sec self = 0
        \<and> (\<forall>now m e. \<not> expired now (self\<lparr>cache_file_mtime := m, extractor := e\<rparr>))
        \<and> (\<forall>now. \<not> expired now self)
        \<and> (\<forall>lib now w now'. \<not> expired now' (fst (snd (get_tld_extractor lib now self w)))))"
proof
  assume neg: "ttl < 0"
  let ?self = "\<lparr>fetch = f, cache_file = cf, cache_file_mtime = 0, cache_ttl_sec = 0, extractor = None\<rparr>"
  have init: "TLDExtract_init f cf ttl = Inr ?self"
    using neg by (simp add: TLDExtract_init_def Let_def max_def)
  have keep: "\<not> expired now' (fst (snd (get_tld_extractor lib now ?self w)))" for lib now w now'
  proof -
    obtain r s' w' where g: "get_tld_extractor lib now ?self w = (r, s', w')"
      by (cases "get_tld_extractor lib now ?self w") auto
    from get_tld_extractor_config [OF g] have "cache_ttl_sec s' = 0" by simp
    with g show ?thesis by (simp add: expired_def)
  qed
  show "\<exists>self. TLDExtract_init f cf ttl = Inr self
        \<and> cache_ttl_sec self = 0
        \<and> (\<forall>now m e. \<not> expired now (self\<lparr>cache_file_mtime := m, extractor := e\<rparr>))
        \<and> (\<forall>now. \<not> expired now self)
        \<and> (\<forall>lib now w now'. \<not> expired now' (fst (snd (get_tld_extractor lib now self w))))"
    using init keep by (intro exI [of _ ?self]) (simp add: expired_def)
qed

theorem init_clamps_negative_ttl_witness:
  "\<exists>self. TLDExtract_init False '''' (- 5) = Inr self \<and> cache_ttl_sec self = 0
      \<and> \<not> expired 1000 (self\<lparr>cache_file_mtime := 1, extractor := None\<rparr>)"
proof -
  have "(- 5 :: int) < 0" by simp
  with init_clamps_negative_ttl [of "- 5" False "''''"] show ?thesis by blast
qed

section \<open>The example world\<close>

lemma example_source:
  "PublicSuffixListSource example_world = (Inr [''com'', ''co.uk''], example_world)"
  by (simp add: PublicSuffixListSource_def fetch_page_def example_world_def tld_finder_def
      line_token_def word_char_def space_char_def List.map_filter_def)




section \<open>C5: the expiry test\<close>




section \<open>C2: a corrupt cache file\<close>

text \<open>
  Claim C2 says that a corrupt or unreadable cache file is logged, treated as a miss and
  never raised to the caller. The code does so for a file that cannot be opened or read
  (\<open>IOError\<close>), and only for that: an exception of \<open>pickle.load\<close> that is no \<open>IOError\<close> leaves
  \<open>_get_tld_extractor\<close> and \<open>extract\<close>. Below, the cache file is empty (as \<open>open(..., 'w')\<close>
  leaves it when the write that follows does not happen) and loading it raises \<open>EOFError\<close>.
\<close>

theorem corrupt_cache_file_raises:
  "get_tld_extractor example_library 1000 TLD_EXTRACTOR
      (example_world\<lparr>files := (\<lambda>p. if p = ''.tld_set''
           then Some \<lparr>mtime = 900, content = Some ''''\<rparr> else None)\<rparr>)
     = (Inl EOFError, TLD_EXTRACTOR\<lparr>cache_file_mtime := 900\<rparr>,
        example_world\<lparr>files := (\<lambda>p. if p = ''.tld_set''
           then Some \<lparr>mtime = 900, content = Some ''''\<rparr> else None)\<rparr>)
   \<and> fst (module_extract example_library 1000 TLD_EXTRACTOR
        (example_world\<lparr>files := (\<lambda>p. if p = ''.tld_set''
           then Some \<lparr>mtime = 900, content = Some ''''\<rparr> else None)\<rparr>)
        ''http://forums.bbc.co.uk/'') = Inl EOFError"
proof -
  let ?w = "example_world\<lparr>files := (\<lambda>p. if p = ''.tld_set''
           then Some \<lparr>mtime = 900, content = Some ''''\<rparr> else None)\<rparr>"
  have n: "\<not> (extractor TLD_EXTRACTOR \<noteq> None \<and> \<not> expired 1000 TLD_EXTRACTOR)"
    by (simp add: TLD_EXTRACTOR_def)
  have p: "cached_file_of TLD_EXTRACTOR ?w = ''.tld_set''"
    by (simp add: cached_file_of_def TLD_EXTRACTOR_def example_world_def)
  have g: "get_tld_extractor example_library 1000 TLD_EXTRACTOR ?w
             = (Inl EOFError, TLD_EXTRACTOR\<lparr>cache_file_mtime := 900\<rparr>, ?w)"
    unfolding get_tld_extractor_reload [OF n] p
    by (simp add: expired_def TLD_EXTRACTOR_def read_cache_def example_library_def lines_load_def)
  then show ?thesis
    by (simp add: module_extract_def TLDExtract_call_def TLDExtract_extract_def Let_def)
qed

text \<open>What the code does recover from: a cache file that raises \<open>IOError\<close>.\<close>

lemma unreadable_cache_file_recovered:
  assumes "extractor self = None" and "files w (cached_file_of self w) = Some f"
    and "\<not> expired now (self\<lparr>cache_file_mtime := mtime f\<rparr>)" and "read_cache lib f = Inl IOError"
  shows "get_tld_extractor lib now self w =
           fetch_or_snapshot lib now (cached_file_of self w) (self\<lparr>cache_file_mtime := 0\<rparr>)
             (LOG ERROR ''error reading TLD cache file %s: %s'' w)"
proof -
  from assms(1) have "\<not> (extractor self \<noteq> None \<and> \<not> expired now self)" by simp
  from get_tld_extractor_reload [OF this] assms show ?thesis by simp
qed

section \<open>C6: the rule set after resolution\<close>




section \<open>The matcher decides the language\<close>

lemma nullable_lang: "nullable r = ([] \<in> lang r)"
  by (induction r) auto

lemma lang_deriv: "s \<in> lang (deriv c r) = (c # s \<in> lang r)"
proof (induction r arbitrary: s)
  case (Seq r1 r2)
  show ?case
  proof
    assume "s \<in> lang (deriv c (Seq r1 r2))"
    then consider (left) u v where "s = u @ v" "u \<in> lang (deriv c r1)" "v \<in> lang r2"
      | (right) "nullable r1" "s \<in> lang (deriv c r2)"
      by (auto split: if_splits)
    then show "c # s \<in> lang (Seq r1 r2)"
    proof cases
      case left
      with Seq.IH(1) have "c # u \<in> lang r1" by simp
      moreover from left have "c # s = (c # u) @ v" by simp
      ultimately show ?thesis using left(3) by (simp only: lang.simps) blast
    next
      case right
      with Seq.IH(2) have "c # s \<in> lang r2" by simp
      moreover from right have "[] \<in> lang r1" by (simp add: nullable_lang)
      moreover have "c # s = [] @ (c # s)" by simp
      ultimately show ?thesis by (simp only: lang.simps) blast
    qed
  next
    assume "c # s \<in> lang (Seq r1 r2)"
    then obtain u v where uv: "c # s = u @ v" "u \<in> lang r1" "v \<in> lang r2" by auto
    show "s \<in> lang (deriv c (Seq r1 r2))"
    proof (cases u)
      case Nil
      with uv have "nullable r1" "s \<in> lang (deriv c r2)"
        using Seq.IH(2) by (simp_all add: nullable_lang)
      then show ?thesis by simp
    next
      case (Cons a u')
      with uv have "a = c" "s = u' @ v" "u' \<in> lang (deriv c r1)"
        using Seq.IH(1) by simp_all
      with uv(3) have "s \<in> lang (Seq (deriv c r1) r2)" by auto
      then show ?thesis by simp
    qed
  qed
qed auto

lemma matches_lang: "matches r s = (s \<in> lang r)"
  by (induction s arbitrary: r) (simp_all add: nullable_lang lang_deriv)

section \<open>The language of \<open>IP_RE\<close>\<close>

lemma lang_OneOf: "(s \<in> lang (OneOf cs)) = (\<exists>c \<in> set cs. s = [c])"
  by auto

lemma lang_Seq: "(s \<in> lang (Seq r t)) = (\<exists>u v. s = u @ v \<and> u \<in> lang r \<and> v \<in> lang t)"
  by auto

lemma lang_Alt: "(s \<in> lang (Alt r t)) = (s \<in> lang r \<or> s \<in> lang t)"
  by simp

lemma lang_Seq_OneOf:
  "(s \<in> lang (Seq (OneOf cs) t)) = (\<exists>c \<in> set cs. \<exists>v. s = c # v \<and> v \<in> lang t)"
proof
  assume "s \<in> lang (Seq (OneOf cs) t)"
  then obtain u v where uv: "s = u @ v" "u \<in> lang (OneOf cs)" "v \<in> lang t"
    unfolding lang_Seq by blast
  from uv(2) obtain c where "c \<in> set cs" "u = [c]" unfolding lang_OneOf by blast
  with uv show "\<exists>c \<in> set cs. \<exists>v. s = c # v \<and> v \<in> lang t" by auto
next
  assume "\<exists>c \<in> set cs. \<exists>v. s = c # v \<and> v \<in> lang t"
  then obtain c v where cv: "c \<in> set cs" "s = c # v" "v \<in> lang t" by blast
  from cv(1) have "[c] \<in> lang (OneOf cs)" unfolding lang_OneOf by blast
  moreover from cv(2) have "s = [c] @ v" by simp
  ultimately show "s \<in> lang (Seq (OneOf cs) t)" using cv(3) unfolding lang_Seq by blast
qed

lemma lang_Seq2:
  "(s \<in> lang (Seq (OneOf as) (OneOf bs))) = (\<exists>a \<in> set as. \<exists>b \<in> set bs. s = [a, b])"
  unfolding lang_Seq_OneOf lang_OneOf by blast

lemma lang_Seq3:
  "(s \<in> lang (Seq (OneOf as) (Seq (OneOf bs) (OneOf cs))))
     = (\<exists>a \<in> set as. \<exists>b \<in> set bs. \<exists>c \<in> set cs. s = [a, b, c])"
  unfolding lang_Seq_OneOf lang_OneOf by blast

lemma lang_IP_octet:
  "(s \<in> lang IP_octet) =
     ((\<exists>a \<in> set class_0_9. s = [a])
      \<or> (\<exists>a \<in> set class_1_9. \<exists>b \<in> set class_0_9. s = [a, b])
      \<or> (\<exists>b \<in> set class_0_9. \<exists>c \<in> set class_0_9. s = [CHR ''1'', b, c])
      \<or> (\<exists>b \<in> set class_0_4. \<exists>c \<in> set class_0_9. s = [CHR ''2'', b, c])
      \<or> (\<exists>c \<in> set class_0_5. s = [CHR ''2'', CHR ''5'', c]))"
  unfolding IP_octet_def lang_Alt lang_Seq3 lang_Seq2 lang_OneOf by simp

section \<open>Digits and decimal numerals\<close>

lemma class_0_9_iff: "(c \<in> set class_0_9) = isdigit c"
  by (simp add: class_0_9_def isdigit_def)

lemma digit_value_bound: "isdigit c \<Longrightarrow> digit_value c \<le> 9"
  by (auto simp: isdigit_def digit_value_def)

lemma class_1_9_iff: "(c \<in> set class_1_9) = (isdigit c \<and> c \<noteq> CHR ''0'')"
  by (auto simp: class_1_9_def isdigit_def)

lemma class_0_4_iff: "(c \<in> set class_0_4) = (isdigit c \<and> digit_value c \<le> 4)"
  by (auto simp: class_0_4_def isdigit_def digit_value_def)

lemma class_0_5_iff: "(c \<in> set class_0_5) = (isdigit c \<and> digit_value c \<le> 5)"
  by (auto simp: class_0_5_def isdigit_def digit_value_def)

lemma digit_value_0: "isdigit c \<Longrightarrow> (digit_value c = 0) = (c = CHR ''0'')"
  by (auto simp: isdigit_def digit_value_def)

lemma digit_value_1: "isdigit c \<Longrightarrow> (digit_value c = 1) = (c = CHR ''1'')"
  by (auto simp: isdigit_def digit_value_def)

lemma digit_value_2: "isdigit c \<Longrightarrow> (digit_value c = 2) = (c = CHR ''2'')"
  by (auto simp: isdigit_def digit_value_def)

lemma digit_value_5: "isdigit c \<Longrightarrow> (digit_value c = 5) = (c = CHR ''5'')"
  by (auto simp: isdigit_def digit_value_def)

lemma isdigit_literals: "isdigit CHR ''1''" "isdigit CHR ''2''" "isdigit CHR ''5''"
  by (simp_all add: isdigit_def)

lemma decimal_fold_grows: "n \<le> foldl (\<lambda>n c. 10 * n + digit_value c) n s"
proof (induction s arbitrary: n)
  case Nil
  show ?case by simp
next
  case (Cons c s)
  have "n \<le> 10 * n + digit_value c" by simp
  also have "\<dots> \<le> foldl (\<lambda>n c. 10 * n + digit_value c) (10 * n + digit_value c) s"
    by (rule Cons.IH)
  finally show ?case by simp
qed

lemma decimal_1: "decimal [a] = digit_value a"
  by (simp add: decimal_def)

lemma decimal_2: "decimal [a, b] = 10 * digit_value a + digit_value b"
  by (simp add: decimal_def)

lemma decimal_3: "decimal [a, b, c] = 100 * digit_value a + 10 * digit_value b + digit_value c"
  by (simp add: decimal_def)

lemma decimal_long: "1000 * digit_value a \<le> decimal (a # b # c # d # s)"
proof -
  let ?n = "10 * (10 * (10 * digit_value a + digit_value b) + digit_value c) + digit_value d"
  have "1000 * digit_value a \<le> ?n" by simp
  also have "?n \<le> foldl (\<lambda>n c. 10 * n + digit_value c) ?n s" by (rule decimal_fold_grows)
  finally show ?thesis by (simp add: decimal_def)
qed

lemma lang_IP_octet_digits:
  "(s \<in> lang IP_octet) =
     ((\<exists>a. isdigit a \<and> s = [a])
      \<or> (\<exists>a b. isdigit a \<and> a \<noteq> CHR ''0'' \<and> isdigit b \<and> s = [a, b])
      \<or> (\<exists>b c. isdigit b \<and> isdigit c \<and> s = [CHR ''1'', b, c])
      \<or> (\<exists>b c. isdigit b \<and> digit_value b \<le> 4 \<and> isdigit c \<and> s = [CHR ''2'', b, c])
      \<or> (\<exists>c. isdigit c \<and> digit_value c \<le> 5 \<and> s = [CHR ''2'', CHR ''5'', c]))"
proof -
  have e1: "(\<exists>a \<in> set class_0_9. s = [a]) = (\<exists>a. isdigit a \<and> s = [a])"
    unfolding Bex_def class_0_9_iff by (rule refl)
  have e2: "(\<exists>a \<in> set class_1_9. \<exists>b \<in> set class_0_9. s = [a, b])
      = (\<exists>a b. isdigit a \<and> a \<noteq> CHR ''0'' \<and> isdigit b \<and> s = [a, b])"
    unfolding Bex_def class_0_9_iff class_1_9_iff by blast
  have e3: "(\<exists>b \<in> set class_0_9. \<exists>c \<in> set class_0_9. s = [CHR ''1'', b, c])
      = (\<exists>b c. isdigit b \<and> isdigit c \<and> s = [CHR ''1'', b, c])"
    unfolding Bex_def class_0_9_iff by blast
  have e4: "(\<exists>b \<in> set class_0_4. \<exists>c \<in> set class_0_9. s = [CHR ''2'', b, c])
      = (\<exists>b c. isdigit b \<and> digit_value b \<le> 4 \<and> isdigit c \<and> s = [CHR ''2'', b, c])"
    unfolding Bex_def class_0_9_iff class_0_4_iff by blast
  have e5: "(\<exists>c \<in> set class_0_5. s = [CHR ''2'', CHR ''5'', c])
      = (\<exists>c. isdigit c \<and> digit_value c \<le> 5 \<and> s = [CHR ''2'', CHR ''5'', c])"
    unfolding Bex_def class_0_5_iff by blast
  show ?thesis unfolding lang_IP_octet e1 e2 e3 e4 e5 by (rule refl)
qed

lemma string_shape:
  obtains (none) "s = []" | (one) a where "s = [a]" | (two) a b where "s = [a, b]"
    | (three) a b c where "s = [a, b, c]" | (long) a b c e t where "s = a # b # c # e # t"
proof (cases s)
  case Nil
  then show ?thesis by (rule none)
next
  case s1: (Cons a s1)
  show ?thesis
  proof (cases s1)
    case Nil
    with s1 show ?thesis by (intro one [of a]) simp
  next
    case s2: (Cons b s2)
    show ?thesis
    proof (cases s2)
      case Nil
      with s1 s2 show ?thesis by (intro two [of a b]) simp
    next
      case s3: (Cons c s3)
      show ?thesis
      proof (cases s3)
        case Nil
        with s1 s2 s3 show ?thesis by (intro three [of a b c]) simp
      next
        case (Cons e t)
        with s1 s2 s3 show ?thesis by (intro long [of a b c e t]) simp
      qed
    qed
  qed
qed

lemma IP_octet_decimal: "(s \<in> lang IP_octet) = decimal_octet s"
proof
  assume "s \<in> lang IP_octet"
  then consider (one) a where "isdigit a" "s = [a]"
    | (two) a b where "isdigit a" "a \<noteq> CHR ''0''" "isdigit b" "s = [a, b]"
    | (hundred) b c where "isdigit b" "isdigit c" "s = [CHR ''1'', b, c]"
    | (two_hundred) b c where "isdigit b" "digit_value b \<le> 4" "isdigit c" "s = [CHR ''2'', b, c]"
    | (two_fifty) c where "isdigit c" "digit_value c \<le> 5" "s = [CHR ''2'', CHR ''5'', c]"
    unfolding lang_IP_octet_digits by blast
  then show "decimal_octet s"
  proof cases
    case one
    with digit_value_bound [of a] show ?thesis
      by (simp add: decimal_octet_def decimal_1)
  next
    case two
    with digit_value_bound [of a] digit_value_bound [of b] show ?thesis
      by (simp add: decimal_octet_def decimal_2)
  next
    case hundred
    have "digit_value CHR ''1'' = 1" by (simp add: digit_value_def)
    with hundred digit_value_bound [of b] digit_value_bound [of c] show ?thesis
      by (simp add: decimal_octet_def decimal_3 isdigit_literals)
  next
    case two_hundred
    have "digit_value CHR ''2'' = 2" by (simp add: digit_value_def)
    with two_hundred digit_value_bound [of c] show ?thesis
      by (simp add: decimal_octet_def decimal_3 isdigit_literals)
  next
    case two_fifty
    have "digit_value CHR ''2'' = 2" "digit_value CHR ''5'' = 5" by (simp_all add: digit_value_def)
    with two_fifty show ?thesis
      by (simp add: decimal_octet_def decimal_3 isdigit_literals)
  qed
next
  assume d: "decimal_octet s"
  then have ne: "s \<noteq> []" and dig: "list_all isdigit s"
    and lead: "length s = 1 \<or> hd s \<noteq> CHR ''0''" and val: "decimal s \<le> 255"
    by (simp_all add: decimal_octet_def)
  show "s \<in> lang IP_octet"
  proof (cases s rule: string_shape)
    case none
    with ne show ?thesis by simp
  next
    case (one a)
    with dig show ?thesis
      unfolding lang_IP_octet_digits by simp
  next
    case (two a b)
    with dig lead have "isdigit a" "a \<noteq> CHR ''0''" "isdigit b" by simp_all
    with two show ?thesis
      unfolding lang_IP_octet_digits by simp
  next
    case (three a b c)
    with dig lead have da: "isdigit a" "a \<noteq> CHR ''0''" and db: "isdigit b" and dc: "isdigit c"
      by simp_all
    from da digit_value_0 [of a] have a0: "digit_value a \<noteq> 0" by blast
    from val three have v: "100 * digit_value a + 10 * digit_value b + digit_value c \<le> 255"
      by (simp add: decimal_3)
    from a0 v have "digit_value a = 1 \<or> digit_value a = 2" by linarith
    then show ?thesis
    proof
      assume h1: "digit_value a = 1"
      with digit_value_1 [OF da(1)] have "a = CHR ''1''" by blast
      with three db dc show ?thesis
        unfolding lang_IP_octet_digits by simp
    next
      assume h2: "digit_value a = 2"
      with digit_value_2 [OF da(1)] have a2: "a = CHR ''2''" by blast
      from h2 v have bc: "10 * digit_value b + digit_value c \<le> 55" by simp
      show ?thesis
      proof (cases "digit_value b \<le> 4")
        case True
        with three a2 db dc show ?thesis
          unfolding lang_IP_octet_digits by simp
      next
        case False
        with bc have b5: "digit_value b = 5" and c5: "digit_value c \<le> 5" by linarith+
        from b5 digit_value_5 [OF db] have "b = CHR ''5''" by blast
        with three a2 dc c5 show ?thesis
          unfolding lang_IP_octet_digits by simp
      qed
    qed
  next
    case (long a b c e t)
    with dig lead have "isdigit a" "a \<noteq> CHR ''0''" by simp_all
    with digit_value_0 [of a] have "digit_value a \<noteq> 0" by blast
    then have "1000 \<le> 1000 * digit_value a" by simp
    also have "\<dots> \<le> decimal s" unfolding long by (rule decimal_long)
    finally show ?thesis using val by simp
  qed
qed

section \<open>\<open>IP_RE\<close> and the address form of the specification\<close>

lemma split_on_single: "c \<notin> set a \<Longrightarrow> split_on c a = [a]"
  by (induction a) auto

lemma split_on_append_sep: "c \<notin> set a \<Longrightarrow> split_on c (a @ c # v) = a # split_on c v"
  by (induction a) auto

lemma decimal_octet_no_dot: "decimal_octet a \<Longrightarrow> CHR ''.'' \<notin> set a"
proof
  assume "decimal_octet a" and "CHR ''.'' \<in> set a"
  then have "isdigit CHR ''.''" by (auto simp: decimal_octet_def list_all_iff)
  then show False by (simp add: isdigit_def)
qed

lemma lang_Seq_dot:
  "(s \<in> lang (Seq (Seq r (OneOf ''.'')) t))
     = (\<exists>a v. s = a @ CHR ''.'' # v \<and> a \<in> lang r \<and> v \<in> lang t)"
proof
  assume "s \<in> lang (Seq (Seq r (OneOf ''.'')) t)"
  then obtain u v where uv: "s = u @ v" "u \<in> lang (Seq r (OneOf ''.''))" "v \<in> lang t"
    unfolding lang_Seq [of s] by blast
  from uv(2) obtain a d where ad: "u = a @ d" "a \<in> lang r" "d \<in> lang (OneOf ''.'')"
    unfolding lang_Seq [of u] by blast
  from ad(3) have "d = ''.''" by auto
  with uv ad show "\<exists>a v. s = a @ CHR ''.'' # v \<and> a \<in> lang r \<and> v \<in> lang t" by auto
next
  assume "\<exists>a v. s = a @ CHR ''.'' # v \<and> a \<in> lang r \<and> v \<in> lang t"
  then obtain a v where av: "s = a @ CHR ''.'' # v" "a \<in> lang r" "v \<in> lang t" by blast
  have "''.'' \<in> lang (OneOf ''.'')" by simp
  with av(2) have "a @ ''.'' \<in> lang (Seq r (OneOf ''.''))" unfolding lang_Seq by blast
  moreover from av(1) have "s = (a @ ''.'') @ v" by simp
  ultimately show "s \<in> lang (Seq (Seq r (OneOf ''.'')) t)"
    using av(3) unfolding lang_Seq [of s] by blast
qed

lemma lang_IP_RE:
  "(s \<in> lang IP_RE) =
     (\<exists>a b c d. s = a @ CHR ''.'' # b @ CHR ''.'' # c @ CHR ''.'' # d
        \<and> decimal_octet a \<and> decimal_octet b \<and> decimal_octet c \<and> decimal_octet d)"
  unfolding IP_RE_def lang_Seq_dot IP_octet_decimal by blast

lemma IP_RE_ipv4_text: "matches IP_RE s = ipv4_text s"
proof
  assume "matches IP_RE s"
  then obtain a b c d where s: "s = a @ CHR ''.'' # b @ CHR ''.'' # c @ CHR ''.'' # d"
    and o: "decimal_octet a" "decimal_octet b" "decimal_octet c" "decimal_octet d"
    unfolding matches_lang lang_IP_RE by blast
  from o have "split_on CHR ''.'' s = [a, b, c, d]"
    unfolding s by (simp add: split_on_append_sep split_on_single decimal_octet_no_dot)
  with o show "ipv4_text s" by (simp add: ipv4_text_def)
next
  assume t: "ipv4_text s"
  then obtain a b c d where sp: "split_on CHR ''.'' s = [a, b, c, d]"
    and o: "decimal_octet a" "decimal_octet b" "decimal_octet c" "decimal_octet d"
    by (auto simp: ipv4_text_def split: list.splits)
  have "s = join ''.'' (split_on CHR ''.'' s)" by (simp add: join_split_on)
  with sp have "s = a @ CHR ''.'' # b @ CHR ''.'' # c @ CHR ''.'' # d" by simp
  with o show "matches IP_RE s" unfolding matches_lang lang_IP_RE by blast
qed

lemma IP_RE_match:
  "re_match_anchored IP_RE s = (ipv4_text s \<or> (\<exists>a. s = a @ [CHR 0x0A] \<and> ipv4_text a))"
proof -
  have "(s \<noteq> [] \<and> last s = CHR 0x0A \<and> ipv4_text (butlast s))
        = (\<exists>a. s = a @ [CHR 0x0A] \<and> ipv4_text a)"
  proof
    assume a: "s \<noteq> [] \<and> last s = CHR 0x0A \<and> ipv4_text (butlast s)"
    then have "s = butlast s @ [CHR 0x0A]" by (metis append_butlast_last_id)
    with a show "\<exists>a. s = a @ [CHR 0x0A] \<and> ipv4_text a" by blast
  next
    assume "\<exists>a. s = a @ [CHR 0x0A] \<and> ipv4_text a"
    then show "s \<noteq> [] \<and> last s = CHR 0x0A \<and> ipv4_text (butlast s)" by auto
  qed
  then show ?thesis by (simp add: re_match_anchored_def IP_RE_ipv4_text)
qed

lemma ipv4_text_starts_with_digit:
  assumes "ipv4_text s"
  shows "s \<noteq> [] \<and> isdigit (hd s)"
proof -
  from assms obtain a b c d where sp: "split_on CHR ''.'' s = [a, b, c, d]"
    and o: "decimal_octet a"
    by (auto simp: ipv4_text_def split: list.splits)
  have "s = join ''.'' (split_on CHR ''.'' s)" by (simp add: join_split_on)
  with sp have s: "s = a @ CHR ''.'' # b @ CHR ''.'' # c @ CHR ''.'' # d" by simp
  from o obtain x xs where a: "a = x # xs" and "isdigit x"
    by (cases a) (auto simp: decimal_octet_def)
  with s show ?thesis by simp
qed

section \<open>C3: the address branch\<close>

lemma TLDExtract_extract_ip:
  assumes "get_tld_extractor lib now self w = (Inr ex, self', w')"
    and "ip_branch lib ex (strip_netloc n0)"
  shows "TLDExtract_extract lib now self w n0 =
           (Inr \<lparr>subdomain = '''', domain = strip_netloc n0, tld = ''''\<rparr>, self', w')"
  using assms(2) unfolding TLDExtract_extract_def ip_branch_def assms(1) Let_def
  by (auto split: prod.splits sum.splits)

lemma ipv4_example: "ipv4_text ''192.168.1.1''"
  by (simp add: ipv4_text_def decimal_octet_def isdigit_def decimal_def digit_value_def)

lemma url_example:
  "fst (partition_str CHR ''/'' (SCHEME_RE_sub ''http://192.168.1.1/'')) = ''192.168.1.1''"
  by (simp add: partition_str_def SCHEME_RE_sub_def scheme_class_def scheme_chars_def)

lemma strip_example: "strip_netloc ''192.168.1.1'' = ''192.168.1.1''"
  by (simp add: strip_netloc_def partition_str_def)

text \<open>
  Claim C3, amended. \<open>_extract\<close> first resolves the rule set and runs the matcher on the
  stripped hostname. The address branch is taken exactly when the matcher found no
  suffix, the hostname is not empty, its first character is a digit, and either
  \<open>socket.inet_aton\<close> accepts the hostname or the socket module has no \<open>inet_aton\<close> and
  \<open>IP_RE\<close> matches. \<open>IP_RE\<close> matches exactly the hostnames of four dot-separated decimal
  numerals from 0 to 255 without leading zeros, with or without one newline at the end;
  a hostname of that form is not empty and begins with a digit.
  When the branch is taken the result is \<open>("", hostname, "")\<close>; when it is not and
  \<open>_extract\<close> returns, the result is the matcher's pair with the prefix split on its last
  dot. When no rule matches \<open>192.168.1.1\<close> and \<open>inet_aton\<close> accepts it or is missing,
  \<open>extract("http://192.168.1.1/")\<close> is \<open>("", "192.168.1.1", "")\<close>.
\<close>

theorem address_branch_after_matcher:
  "(get_tld_extractor lib now self w = (Inr ex, self', w') \<and> ip_branch lib ex (strip_netloc n0) \<longrightarrow>
      TLDExtract_extract lib now self w n0 =
        (Inr \<lparr>subdomain = '''', domain = strip_netloc n0, tld = ''''\<rparr>, self', w'))
   \<and> ip_branch lib ex h =
        (snd (PSL_extract ex h) = '''' \<and> h \<noteq> '''' \<and> isdigit (hd h)
         \<and> ((\<exists>packed. inet_aton lib h = Inr packed)
            \<or> (inet_aton lib h = Inl AttributeError
                \<and> (ipv4_text h \<or> (\<exists>a. h = a @ [CHR 0x0A] \<and> ipv4_text a)))))
   \<and> (get_tld_extractor lib now self w = (Inr ex, self', w')
        \<and> \<not> ip_branch lib ex (strip_netloc n0)
        \<and> TLDExtract_extract lib now self w n0 = (Inr r, s2, w2) \<longrightarrow>
        r = \<lparr>subdomain = fst (rpartition CHR ''.'' (fst (PSL_extract ex (strip_netloc n0)))),
             domain = snd (snd (rpartition CHR ''.'' (fst (PSL_extract ex (strip_netloc n0))))),
             tld = snd (PSL_extract ex (strip_netloc n0))\<rparr>)
   \<and> (get_tld_extractor lib now self w = (Inr ex, self', w')
        \<and> snd (PSL_extract ex ''192.168.1.1'') = ''''
        \<and> ((\<exists>packed. inet_aton lib ''192.168.1.1'' = Inr packed)
            \<or> inet_aton lib ''192.168.1.1'' = Inl AttributeError) \<longrightarrow>
        module_extract lib now self w ''http://192.168.1.1/'' =
          (Inr \<lparr>subdomain = '''', domain = ''192.168.1.1'', tld = ''''\<rparr>, self', w'))
   \<and> (ipv4_text h \<longrightarrow> h \<noteq> '''' \<and> isdigit (hd h))"
proof (intro conjI impI)
  assume "ipv4_text h"
  then show "h \<noteq> ''''" and "isdigit (hd h)"
    using ipv4_text_starts_with_digit by blast+
next
  assume "get_tld_extractor lib now self w = (Inr ex, self', w') \<and> ip_branch lib ex (strip_netloc n0)"
  then show "TLDExtract_extract lib now self w n0 =
        (Inr \<lparr>subdomain = '''', domain = strip_netloc n0, tld = ''''\<rparr>, self', w')"
    using TLDExtract_extract_ip by blast
next
  show "ip_branch lib ex h =
        (snd (PSL_extract ex h) = '''' \<and> h \<noteq> '''' \<and> isdigit (hd h)
         \<and> ((\<exists>packed. inet_aton lib h = Inr packed)
            \<or> (inet_aton lib h = Inl AttributeError
                \<and> (ipv4_text h \<or> (\<exists>a. h = a @ [CHR 0x0A] \<and> ipv4_text a)))))"
    unfolding ip_branch_def IP_RE_match by (cases "inet_aton lib h") auto
next
  assume "get_tld_extractor lib now self w = (Inr ex, self', w')
        \<and> \<not> ip_branch lib ex (strip_netloc n0)
        \<and> TLDExtract_extract lib now self w n0 = (Inr r, s2, w2)"
  then show "r = \<lparr>subdomain = fst (rpartition CHR ''.'' (fst (PSL_extract ex (strip_netloc n0)))),
             domain = snd (snd (rpartition CHR ''.'' (fst (PSL_extract ex (strip_netloc n0))))),
             tld = snd (PSL_extract ex (strip_netloc n0))\<rparr>"
    using TLDExtract_extract_split by blast
next
  let ?h = "''192.168.1.1''"
  assume a: "get_tld_extractor lib now self w = (Inr ex, self', w')
        \<and> snd (PSL_extract ex ?h) = ''''
        \<and> ((\<exists>packed. inet_aton lib ?h = Inr packed) \<or> inet_aton lib ?h = Inl AttributeError)"
  then have g: "get_tld_extractor lib now self w = (Inr ex, self', w')" by (rule conjunct1)
  have d: "isdigit (hd ?h)" by (simp add: isdigit_def)
  have m: "re_match_anchored IP_RE ?h" unfolding IP_RE_match using ipv4_example by blast
  from a d m have "ip_branch lib ex (strip_netloc ?h)"
    unfolding strip_example ip_branch_def by auto
  from TLDExtract_extract_ip [OF g this]
  show "module_extract lib now self w ''http://192.168.1.1/'' =
          (Inr \<lparr>subdomain = '''', domain = ?h, tld = ''''\<rparr>, self', w')"
    by (simp add: module_extract_def TLDExtract_call_def url_example strip_example)
qed

text \<open>
  The claim as stated fails when a rule matches the address: the matcher runs before the
  address test, and with the rule \<open>1\<close> in the rule set it cuts \<open>192.168.1.1\<close> (which is of
  the address form) into the prefix \<open>192.168.1\<close> and the suffix \<open>1\<close>, so the address test is
  not reached.
\<close>

theorem address_with_matching_rule_counterexample:
  "ipv4_text ''192.168.1.1''
   \<and> module_extract example_library 1000 (TLD_EXTRACTOR\<lparr>extractor := Some \<lparr>tlds = {''1''}\<rparr>\<rparr>)
        example_world ''http://192.168.1.1/''
      = (Inr \<lparr>subdomain = ''192.168'', domain = ''1'', tld = ''1''\<rparr>,
         TLD_EXTRACTOR\<lparr>extractor := Some \<lparr>tlds = {''1''}\<rparr>\<rparr>, example_world)"
proof -
  let ?S = "TLD_EXTRACTOR\<lparr>extractor := Some \<lparr>tlds = {''1''}\<rparr>\<rparr>"
  have g: "get_tld_extractor example_library 1000 ?S example_world
             = (Inr \<lparr>tlds = {''1''}\<rparr>, ?S, example_world)"
    by (simp add: get_tld_extractor_def expired_def TLD_EXTRACTOR_def)
  have m: "PSL_extract \<lparr>tlds = {''1''}\<rparr> ''192.168.1.1'' = (''192.168.1'', ''1'')"
    by (simp add: PSL_extract_def Let_def)
  have "module_extract example_library 1000 ?S example_world ''http://192.168.1.1/''
      = (Inr \<lparr>subdomain = ''192.168'', domain = ''1'', tld = ''1''\<rparr>, ?S, example_world)"
    by (simp add: module_extract_def TLDExtract_call_def url_example TLDExtract_extract_def
        strip_example g m rpartition_def Let_def)
  with ipv4_example show ?thesis by simp
qed

theorem address_branch_after_matcher_witness:
  "module_extract example_library 1000
      (TLD_EXTRACTOR\<lparr>extractor := Some \<lparr>tlds = {''com'', ''co.uk''}\<rparr>\<rparr>) example_world
      ''http://192.168.1.1/''
     = (Inr \<lparr>subdomain = '''', domain = ''192.168.1.1'', tld = ''''\<rparr>,
        TLD_EXTRACTOR\<lparr>extractor := Some \<lparr>tlds = {''com'', ''co.uk''}\<rparr>\<rparr>, example_world)
   \<and> ip_branch example_library \<lparr>tlds = {''com'', ''co.uk''}\<rparr> ''192.168.1.1''
   \<and> \<not> ip_branch example_library \<lparr>tlds = {''com'', ''co.uk''}\<rparr> ''192.168.1.256''
   \<and> TLDExtract_extract example_library 1000
        (TLD_EXTRACTOR\<lparr>extractor := Some \<lparr>tlds = {''com'', ''co.uk''}\<rparr>\<rparr>) example_world
        ''user@192.168.1.1:8080''
      = (Inr \<lparr>subdomain = '''', domain = ''192.168.1.1'', tld = ''''\<rparr>,
         TLD_EXTRACTOR\<lparr>extractor := Some \<lparr>tlds = {''com'', ''co.uk''}\<rparr>\<rparr>, example_world)
   \<and> fst (TLDExtract_extract example_library 1000
        (TLD_EXTRACTOR\<lparr>extractor := Some \<lparr>tlds = {''com'', ''co.uk''}\<rparr>\<rparr>) example_world
        ''192.168.1.256'')
      = Inr \<lparr>subdomain = ''192.168.1'', domain = ''256'', tld = ''''\<rparr>"
proof -
  let ?ex = "\<lparr>tlds = {''com'', ''co.uk''}\<rparr>"
  let ?S = "TLD_EXTRACTOR\<lparr>extractor := Some ?ex\<rparr>"
  have g: "get_tld_extractor example_library 1000 ?S example_world = (Inr ?ex, ?S, example_world)"
    by (simp add: get_tld_extractor_def expired_def TLD_EXTRACTOR_def)
  have m: "snd (PSL_extract ?ex ''192.168.1.1'') = ''''"
    by (simp add: PSL_extract_def Let_def)
  have m2: "snd (PSL_extract ?ex ''192.168.1.256'') = ''''"
    by (simp add: PSL_extract_def Let_def)
  have aton: "inet_aton example_library h = Inl AttributeError" for h
    by (simp add: example_library_def)
  note i1 = address_branch_after_matcher [where lib = example_library and now = 1000
      and self = ?S and w = example_world and ex = ?ex and self' = ?S and w' = example_world
      and h = "''192.168.1.1''"]
  note i2 = address_branch_after_matcher [where lib = example_library and ex = ?ex
      and h = "''192.168.1.256''", THEN conjunct2, THEN conjunct1]
  have a: "module_extract example_library 1000 ?S example_world ''http://192.168.1.1/''
     = (Inr \<lparr>subdomain = '''', domain = ''192.168.1.1'', tld = ''''\<rparr>, ?S, example_world)"
    using i1 g m aton by simp
  have b: "ip_branch example_library ?ex ''192.168.1.1''"
    using i1 [THEN conjunct2, THEN conjunct1] m aton ipv4_example by (simp add: isdigit_def)
  have n1: "\<not> ipv4_text ''192.168.1.256''"
    by (simp add: ipv4_text_def decimal_octet_def isdigit_def decimal_def digit_value_def)
  have n2: "\<not> (\<exists>a. ''192.168.1.256'' = a @ [CHR 0x0A] \<and> ipv4_text a)"
    by (auto simp: append_eq_Cons_conv)
  have c: "\<not> ip_branch example_library ?ex ''192.168.1.256''"
    using i2 n1 n2 by (simp add: aton)
  have st1: "strip_netloc ''user@192.168.1.1:8080'' = ''192.168.1.1''"
    by (simp add: strip_netloc_def partition_str_def)
  from b have b': "ip_branch example_library ?ex (strip_netloc ''user@192.168.1.1:8080'')"
    unfolding st1 .
  from address_branch_after_matcher [where lib = example_library and now = 1000
      and self = ?S and w = example_world and ex = ?ex and self' = ?S and w' = example_world
      and ?n0.0 = "''user@192.168.1.1:8080''", THEN conjunct1, rule_format, OF conjI, OF g b']
  have d: "TLDExtract_extract example_library 1000 ?S example_world ''user@192.168.1.1:8080''
      = (Inr \<lparr>subdomain = '''', domain = ''192.168.1.1'', tld = ''''\<rparr>, ?S, example_world)"
    unfolding st1 .
  have st2: "strip_netloc ''192.168.1.256'' = ''192.168.1.256''"
    by (simp add: strip_netloc_def partition_str_def)
  have m3: "PSL_extract ?ex ''192.168.1.256'' = (''192.168.1.256'', '''')"
    by (simp add: PSL_extract_def Let_def)
  have nm: "\<not> re_match_anchored IP_RE ''192.168.1.256''"
    unfolding IP_RE_match using n1 n2 by blast
  have "TLDExtract_extract example_library 1000 ?S example_world ''192.168.1.256''
      = (Inr \<lparr>subdomain = ''192.168.1'', domain = ''256'', tld = ''''\<rparr>, ?S, example_world)"
    by (simp add: TLDExtract_extract_def st2 g m3 Let_def aton nm rpartition_def)
  then obtain r s2 w2 where ret:
    "TLDExtract_extract example_library 1000 ?S example_world ''192.168.1.256'' = (Inr r, s2, w2)"
    by blast
  from c have c': "\<not> ip_branch example_library ?ex (strip_netloc ''192.168.1.256'')"
    unfolding st2 .
  from address_branch_after_matcher [where lib = example_library and now = 1000
      and self = ?S and w = example_world and ex = ?ex and self' = ?S and w' = example_world
      and ?n0.0 = "''192.168.1.256''" and r = r and ?s2.0 = s2 and ?w2.0 = w2,
      THEN conjunct2, THEN conjunct2, THEN conjunct1, rule_format, OF conjI, OF g conjI,
      OF c' ret]
  have "r = \<lparr>subdomain = ''192.168.1'', domain = ''256'', tld = ''''\<rparr>"
    unfolding st2 m3 by (simp add: rpartition_def)
  with ret have e: "fst (TLDExtract_extract example_library 1000 ?S example_world ''192.168.1.256'')
      = Inr \<lparr>subdomain = ''192.168.1'', domain = ''256'', tld = ''''\<rparr>" by simp
  from a b c d e show ?thesis by simp
qed

end
